theory Spec2Isabelle
  imports Complex_Main "HOL-Library.Monad_Syntax"
begin

section \<open>Configuration (config.h, config.cpp)\<close>

text \<open>
  The struct \<^verbatim>\<open>GeneratorConfig\<close>, field by field in the order of config.h.
  A C++ \<^verbatim>\<open>int\<close> is an \<open>int\<close> here; the configuration code only compares these
  fields, it never does arithmetic on them.  The \<^verbatim>\<open>unsigned int seed\<close> is a \<open>nat\<close>
  below \<open>2 ^ 32\<close>.  A \<^verbatim>\<open>double\<close> is idealised as a \<open>real\<close>: sums are exact and
  there is no NaN.
\<close>

record GeneratorConfig =
  seed :: nat
  module_name' :: string
  num_inputs :: int
  num_outputs :: int
  input_width_min :: int
  input_width_max :: int
  output_width_min :: int
  output_width_max :: int
  num_operations :: int
  max_depth :: int
  num_pipeline_stages :: int
  weight_arithmetic :: real
  weight_logical :: real
  weight_comparison :: real
  weight_shift :: real
  weight_mux :: real
  weight_concat :: real
  weight_reduction :: real
  weight_add :: real
  weight_sub :: real
  weight_mult :: real
  weight_div :: real
  weight_mod :: real
  weight_sll :: real
  weight_srl :: real
  weight_sra :: real
  use_parameters :: bool
  use_signed :: bool
  use_tristate :: bool
  generate_testbench :: bool
  generate_case_statements :: bool
  generate_if_else_chains :: bool
  generate_sharing_opportunities :: bool
  num_case_statements :: int
  num_if_else_chains :: int
  cases_per_statement :: int
  output_file :: string
  verbose :: bool

text \<open>
  The members the constructor's initialiser list leaves out
  (\<^verbatim>\<open>generate_case_statements\<close> \<dots> \<^verbatim>\<open>cases_per_statement\<close>) hold indeterminate
  values after construction; they are collected in this record and handed to the
  constructor, as is the clock value that seeds \<^verbatim>\<open>seed\<close>.
\<close>

record Indeterminate =
  ind_generate_case_statements :: bool
  ind_generate_if_else_chains :: bool
  ind_generate_sharing_opportunities :: bool
  ind_num_case_statements :: int
  ind_num_if_else_chains :: int
  ind_cases_per_statement :: int

definition GeneratorConfig_ctor :: "nat \<Rightarrow> Indeterminate \<Rightarrow> GeneratorConfig" where
  "GeneratorConfig_ctor time_now u =
     \<lparr> seed = time_now mod 2 ^ 32,
       module_name' = ''random_datapath'',
       num_inputs = 8,
       num_outputs = 4,
       input_width_min = 8,
       input_width_max = 32,
       output_width_min = 8,
       output_width_max = 32,
       num_operations = 50,
       max_depth = 10,
       num_pipeline_stages = 0,
       weight_arithmetic = 0.3,
       weight_logical = 0.2,
       weight_comparison = 0.1,
       weight_shift = 0.15,
       weight_mux = 0.15,
       weight_concat = 0.05,
       weight_reduction = 0.05,
       weight_add = 0.3,
       weight_sub = 0.3,
       weight_mult = 0.25,
       weight_div = 0.1,
       weight_mod = 0.05,
       weight_sll = 0.4,
       weight_srl = 0.4,
       weight_sra = 0.2,
       use_parameters = False,
       use_signed = True,
       use_tristate = False,
       generate_testbench = False,
       generate_case_statements = ind_generate_case_statements u,
       generate_if_else_chains = ind_generate_if_else_chains u,
       generate_sharing_opportunities = ind_generate_sharing_opportunities u,
       num_case_statements = ind_num_case_statements u,
       num_if_else_chains = ind_num_if_else_chains u,
       cases_per_statement = ind_cases_per_statement u,
       output_file = ''output.v'',
       verbose = False \<rparr>"

text \<open>
  \<^verbatim>\<open>GeneratorConfig::validate\<close>: the chain of early returns, in the source's order.
  The messages it writes to \<^verbatim>\<open>std::cerr\<close> are left out; the result is the returned
  flag.
\<close>

definition validate :: "GeneratorConfig \<Rightarrow> bool" where
  "validate c =
     (if num_inputs c < 1 \<or> num_inputs c > 1000 then False
      else if num_outputs c < 1 \<or> num_outputs c > 1000 then False
      else if input_width_min c < 1 \<or> input_width_min c > input_width_max c then False
      else if output_width_min c < 1 \<or> output_width_min c > output_width_max c then False
      else if num_operations c < 1 then False
      else
        let total_weight = weight_arithmetic c + weight_logical c + weight_comparison c +
                           weight_shift c + weight_mux c + weight_concat c + weight_reduction c
        in if total_weight \<le> 0 then False else True)"

subsection \<open>Loading a configuration file\<close>

text \<open>
  \<^verbatim>\<open>std::to_string\<close> on a non-negative number: its decimal digits.
\<close>

fun digits :: "nat \<Rightarrow> string" where
  "digits n = (if n < 10 then [''0123456789'' ! n]
               else digits (n div 10) @ [''0123456789'' ! (n mod 10)])"

declare digits.simps [simp del]

definition to_string :: "int \<Rightarrow> string" where
  "to_string i = (if i < 0 then CHR ''-'' # digits (nat (- i)) else digits (nat i))"

text \<open>
  The two \<^verbatim>\<open>erase\<close> calls that trim blanks and tabs from both ends of a string.
  When the string holds nothing else, \<^verbatim>\<open>find_first_not_of\<close> returns \<^verbatim>\<open>npos\<close>
  and the first \<^verbatim>\<open>erase\<close> empties the string.
\<close>

definition is_blank :: "char \<Rightarrow> bool" where
  "is_blank ch = (ch = CHR '' '' \<or> ch = CHR 0x09)"

definition trim :: "string \<Rightarrow> string" where
  "trim s = rev (dropWhile is_blank (rev (dropWhile is_blank s)))"

text \<open>
  The two \<^verbatim>\<open>std::getline\<close> calls on the line: the key is everything before the first
  \<^verbatim>\<open>=\<close>, the value everything after it up to a newline.  The second call fails, and
  the line is ignored, when the line has no \<^verbatim>\<open>=\<close> or nothing follows it.
\<close>

definition split_key_value :: "string \<Rightarrow> (string \<times> string) option" where
  "split_key_value line =
     (case dropWhile (\<lambda>ch. ch \<noteq> CHR ''='') line of
        [] \<Rightarrow> None
      | _ # rest \<Rightarrow>
          if rest = [] then None
          else Some (takeWhile (\<lambda>ch. ch \<noteq> CHR ''='') line, takeWhile (\<lambda>ch. ch \<noteq> CHR 0x0A) rest))"

text \<open>
  The standard library's \<^verbatim>\<open>std::stoul\<close>, \<^verbatim>\<open>std::stoi\<close> and \<^verbatim>\<open>std::stod\<close> are not part
  of the program; they are parameters of the model.  \<open>None\<close> is the exception they throw.
\<close>

record Conversions =
  stoul :: "string \<Rightarrow> nat option"
  stoi :: "string \<Rightarrow> int option"
  stod :: "string \<Rightarrow> real option"

text \<open>
  The \<^verbatim>\<open>if\<close>/\<^verbatim>\<open>else if\<close> chain over the key, inside the \<^verbatim>\<open>try\<close> block.  The result is
  \<open>None\<close> when a conversion throws; otherwise the updated configuration and the
  warning written to \<^verbatim>\<open>std::cerr\<close>, if any.
\<close>

definition assign_key ::
  "Conversions \<Rightarrow> nat \<Rightarrow> string \<Rightarrow> string \<Rightarrow> GeneratorConfig \<Rightarrow> (GeneratorConfig \<times> string list) option"
where
  "assign_key cv line_num key val c =
     (if key = ''seed'' then map_option (\<lambda>v. (c\<lparr>seed := v mod 2 ^ 32\<rparr>, [])) (stoul cv val)
      else if key = ''module_name'' then Some (c\<lparr>module_name' := val\<rparr>, [])
      else if key = ''num_inputs'' then map_option (\<lambda>v. (c\<lparr>num_inputs := v\<rparr>, [])) (stoi cv val)
      else if key = ''num_outputs'' then map_option (\<lambda>v. (c\<lparr>num_outputs := v\<rparr>, [])) (stoi cv val)
      else if key = ''input_width_min'' then map_option (\<lambda>v. (c\<lparr>input_width_min := v\<rparr>, [])) (stoi cv val)
      else if key = ''input_width_max'' then map_option (\<lambda>v. (c\<lparr>input_width_max := v\<rparr>, [])) (stoi cv val)
      else if key = ''output_width_min'' then map_option (\<lambda>v. (c\<lparr>output_width_min := v\<rparr>, [])) (stoi cv val)
      else if key = ''output_width_max'' then map_option (\<lambda>v. (c\<lparr>output_width_max := v\<rparr>, [])) (stoi cv val)
      else if key = ''num_operations'' then map_option (\<lambda>v. (c\<lparr>num_operations := v\<rparr>, [])) (stoi cv val)
      else if key = ''max_depth'' then map_option (\<lambda>v. (c\<lparr>max_depth := v\<rparr>, [])) (stoi cv val)
      else if key = ''num_pipeline_stages'' then map_option (\<lambda>v. (c\<lparr>num_pipeline_stages := v\<rparr>, [])) (stoi cv val)
      else if key = ''weight_arithmetic'' then map_option (\<lambda>v. (c\<lparr>weight_arithmetic := v\<rparr>, [])) (stod cv val)
      else if key = ''weight_logical'' then map_option (\<lambda>v. (c\<lparr>weight_logical := v\<rparr>, [])) (stod cv val)
      else if key = ''weight_comparison'' then map_option (\<lambda>v. (c\<lparr>weight_comparison := v\<rparr>, [])) (stod cv val)
      else if key = ''weight_shift'' then map_option (\<lambda>v. (c\<lparr>weight_shift := v\<rparr>, [])) (stod cv val)
      else if key = ''weight_mux'' then map_option (\<lambda>v. (c\<lparr>weight_mux := v\<rparr>, [])) (stod cv val)
      else if key = ''weight_concat'' then map_option (\<lambda>v. (c\<lparr>weight_concat := v\<rparr>, [])) (stod cv val)
      else if key = ''weight_reduction'' then map_option (\<lambda>v. (c\<lparr>weight_reduction := v\<rparr>, [])) (stod cv val)
      else if key = ''output_file'' then Some (c\<lparr>output_file := val\<rparr>, [])
      else if key = ''verbose'' then Some (c\<lparr>verbose := (val = ''true'' \<or> val = ''1'')\<rparr>, [])
      else Some (c, [''Warning: Unknown config key '' @ [CHR 0x27] @ key @ [CHR 0x27] @
                     '' at line '' @ to_string (int line_num)]))"

text \<open>
  One iteration of the \<^verbatim>\<open>while (std::getline(file, line))\<close> loop, for the line with
  number \<open>line_num\<close>.
\<close>

definition load_line ::
  "Conversions \<Rightarrow> nat \<Rightarrow> string \<Rightarrow> GeneratorConfig \<Rightarrow> (GeneratorConfig \<times> string list) option"
where
  "load_line cv line_num line c =
     (if line = [] \<or> hd line = CHR ''#'' then Some (c, [])
      else case split_key_value line of
             None \<Rightarrow> Some (c, [])
           | Some (key, val) \<Rightarrow> assign_key cv line_num (trim key) (trim val) c)"

text \<open>
  The loop over the lines, \<open>line_num\<close> being the lines read so far.  A thrown conversion
  ends the function with \<^verbatim>\<open>false\<close> and keeps what earlier lines assigned; after the
  last line the result is that of \<^verbatim>\<open>validate\<close>.  The third component is what the loop
  wrote to \<^verbatim>\<open>std::cerr\<close>.
\<close>

fun load_lines ::
  "Conversions \<Rightarrow> nat \<Rightarrow> string list \<Rightarrow> GeneratorConfig \<Rightarrow> string list
     \<Rightarrow> bool \<times> GeneratorConfig \<times> string list"
where
  "load_lines cv line_num [] c err = (validate c, c, err)"
| "load_lines cv line_num (line # rest) c err =
     (case load_line cv (Suc line_num) line c of
        None \<Rightarrow> (False, c, err @ [''Error parsing line '' @ to_string (int (Suc line_num))])
      | Some (c', w) \<Rightarrow> load_lines cv (Suc line_num) rest c' (err @ w))"

text \<open>
  \<^verbatim>\<open>GeneratorConfig::loadFromFile\<close>.  The file is \<open>None\<close> when it cannot be opened,
  otherwise the list of its lines.
\<close>

definition loadFromFile ::
  "Conversions \<Rightarrow> string list option \<Rightarrow> GeneratorConfig \<Rightarrow> bool \<times> GeneratorConfig \<times> string list"
where
  "loadFromFile cv file c =
     (case file of
        None \<Rightarrow> (False, c, [''Error: Could not open config file''])
      | Some lines \<Rightarrow> load_lines cv 0 lines c [])"


section \<open>Signals, operations and control blocks\<close>

datatype SignalType = INPUT | OUTPUT | WIRE | REG

record Signal =
  sig_name :: string
  sig_width :: int
  sig_type :: SignalType
  sig_signed :: bool

text \<open>
  A \<^verbatim>\<open>SignalPtr\<close> is a \<^verbatim>\<open>std::shared_ptr<Signal>\<close>.  Signals are never changed after
  construction, but they are shared and compared by identity, so the model keeps every
  signal made by \<^verbatim>\<open>std::make_shared<Signal>\<close> in a store, in the order of creation,
  and a pointer is the position of its signal there.  A pointer that may be
  \<^verbatim>\<open>nullptr\<close> is a \<open>SignalPtr option\<close>.
\<close>

type_synonym SignalPtr = nat

datatype OpType =
    ADD | SUB | MULT | DIV | MOD
  | AND | OR | XOR | NOT | NAND | NOR | XNOR
  | EQ | NEQ | LT | GT | LTE | GTE
  | SLL | SRL | SRA
  | RED_AND | RED_OR | RED_XOR | RED_NAND | RED_NOR | RED_XNOR
  | MUX2 | MUX4
  | CONCAT
  | REPLICATE
  | CONDITIONAL

text \<open>The value of each enumerator, for the range tests \<^verbatim>\<open>op_type >= A && op_type <= B\<close>.\<close>

fun OpType_value :: "OpType \<Rightarrow> nat" where
  "OpType_value ADD = 0" | "OpType_value SUB = 1" | "OpType_value MULT = 2"
| "OpType_value DIV = 3" | "OpType_value MOD = 4"
| "OpType_value AND = 5" | "OpType_value OR = 6" | "OpType_value XOR = 7"
| "OpType_value NOT = 8" | "OpType_value NAND = 9" | "OpType_value NOR = 10"
| "OpType_value XNOR = 11"
| "OpType_value EQ = 12" | "OpType_value NEQ = 13" | "OpType_value LT = 14"
| "OpType_value GT = 15" | "OpType_value LTE = 16" | "OpType_value GTE = 17"
| "OpType_value SLL = 18" | "OpType_value SRL = 19" | "OpType_value SRA = 20"
| "OpType_value RED_AND = 21" | "OpType_value RED_OR = 22" | "OpType_value RED_XOR = 23"
| "OpType_value RED_NAND = 24" | "OpType_value RED_NOR = 25" | "OpType_value RED_XNOR = 26"
| "OpType_value MUX2 = 27" | "OpType_value MUX4 = 28"
| "OpType_value CONCAT = 29"
| "OpType_value REPLICATE = 30"
| "OpType_value CONDITIONAL = 31"

text \<open>
  The class \<^verbatim>\<open>Operation\<close>; the members \<^verbatim>\<open>type_\<close>, \<^verbatim>\<open>output_\<close>, \<^verbatim>\<open>inputs_\<close>,
  \<^verbatim>\<open>constants_\<close>, \<^verbatim>\<open>depth_\<close> and \<^verbatim>\<open>stage_\<close> carry the prefix \<open>op_\<close> instead of the
  trailing underscore.  Every operation the generator keeps is held by exactly one
  container (the main sequence, or one case or branch of one control block), so the
  \<^verbatim>\<open>OperationPtr\<close>s are modelled by the operations themselves.
\<close>

record Operation =
  op_type :: OpType
  op_output :: SignalPtr
  op_inputs :: "SignalPtr list"
  op_constants :: "(int \<times> int) list"
  op_depth :: int
  op_stage :: int

definition Operation_ctor :: "OpType \<Rightarrow> SignalPtr \<Rightarrow> Operation" where
  "Operation_ctor ty out =
     \<lparr> op_type = ty, op_output = out, op_inputs = [], op_constants = [], op_depth = 0, op_stage = 0 \<rparr>"

definition addInput :: "SignalPtr \<Rightarrow> Operation \<Rightarrow> Operation" where
  "addInput p op = op\<lparr>op_inputs := op_inputs op @ [p]\<rparr>"

definition setDepth :: "int \<Rightarrow> Operation \<Rightarrow> Operation" where
  "setDepth d op = op\<lparr>op_depth := d\<rparr>"

definition setStage :: "int \<Rightarrow> Operation \<Rightarrow> Operation" where
  "setStage st op = op\<lparr>op_stage := st\<rparr>"

definition isUnary :: "OpType \<Rightarrow> bool" where
  "isUnary ty = (ty = NOT \<or> ty = RED_AND \<or> ty = RED_OR \<or> ty = RED_XOR \<or>
                 ty = RED_NAND \<or> ty = RED_NOR \<or> ty = RED_XNOR)"

definition isBinary :: "OpType \<Rightarrow> bool" where
  "isBinary ty = (ty = ADD \<or> ty = SUB \<or> ty = MULT \<or> ty = DIV \<or> ty = MOD \<or>
                  ty = AND \<or> ty = OR \<or> ty = XOR \<or> ty = NAND \<or> ty = NOR \<or> ty = XNOR \<or>
                  ty = EQ \<or> ty = NEQ \<or> ty = LT \<or> ty = GT \<or> ty = LTE \<or> ty = GTE \<or>
                  ty = SLL \<or> ty = SRL \<or> ty = SRA)"

definition isTernary :: "OpType \<Rightarrow> bool" where
  "isTernary ty = (ty = MUX2 \<or> ty = CONDITIONAL)"

definition getRequiredOperands :: "OpType \<Rightarrow> int" where
  "getRequiredOperands ty =
     (if isUnary ty then 1
      else if isBinary ty then 2
      else if isTernary ty then 3
      else if ty = MUX4 then 5
      else if ty = CONCAT then 2
      else 0)"

datatype ControlType = CASE_STATEMENT | IF_ELSE_CHAIN | ALWAYS_COMB | ALWAYS_FF

record CaseItem =
  case_value :: int
  case_operations :: "Operation list"
  case_assignments :: "(SignalPtr \<times> SignalPtr) list"

record ConditionalBranch =
  condition :: "SignalPtr option"
  branch_operations :: "Operation list"
  branch_assignments :: "(SignalPtr \<times> SignalPtr) list"

record ControlBlock =
  cb_type :: ControlType
  cb_select :: "SignalPtr option"
  cb_cases :: "CaseItem list"
  cb_default_assignments :: "(SignalPtr \<times> SignalPtr) list"
  cb_branches :: "ConditionalBranch list"

definition ControlBlock_ctor :: "ControlType \<Rightarrow> SignalPtr option \<Rightarrow> ControlBlock" where
  "ControlBlock_ctor ty sel =
     \<lparr> cb_type = ty, cb_select = sel, cb_cases = [], cb_default_assignments = [], cb_branches = [] \<rparr>"

definition addCase :: "int \<Rightarrow> ControlBlock \<Rightarrow> ControlBlock" where
  "addCase v cb =
     cb\<lparr>cb_cases := cb_cases cb @ [\<lparr> case_value = v, case_operations = [], case_assignments = [] \<rparr>]\<rparr>"

text \<open>
  The loops of \<^verbatim>\<open>addCaseOperation\<close> and \<^verbatim>\<open>addCaseAssignment\<close>: the first case item
  with the given value is changed, and nothing happens when there is none.
\<close>

fun update_first_case :: "int \<Rightarrow> (CaseItem \<Rightarrow> CaseItem) \<Rightarrow> CaseItem list \<Rightarrow> CaseItem list" where
  "update_first_case v f [] = []"
| "update_first_case v f (ci # rest) =
     (if case_value ci = v then f ci # rest else ci # update_first_case v f rest)"

definition addCaseOperation :: "int \<Rightarrow> Operation \<Rightarrow> ControlBlock \<Rightarrow> ControlBlock" where
  "addCaseOperation v op cb =
     cb\<lparr>cb_cases := update_first_case v
                     (\<lambda>ci. ci\<lparr>case_operations := case_operations ci @ [op]\<rparr>) (cb_cases cb)\<rparr>"

definition addCaseAssignment :: "int \<Rightarrow> SignalPtr \<Rightarrow> SignalPtr \<Rightarrow> ControlBlock \<Rightarrow> ControlBlock" where
  "addCaseAssignment v out inp cb =
     cb\<lparr>cb_cases := update_first_case v
                     (\<lambda>ci. ci\<lparr>case_assignments := case_assignments ci @ [(out, inp)]\<rparr>) (cb_cases cb)\<rparr>"

definition setDefaultCase :: "(SignalPtr \<times> SignalPtr) list \<Rightarrow> ControlBlock \<Rightarrow> ControlBlock" where
  "setDefaultCase assigns cb = cb\<lparr>cb_default_assignments := assigns\<rparr>"

definition addBranch :: "SignalPtr option \<Rightarrow> ControlBlock \<Rightarrow> ControlBlock" where
  "addBranch cond cb =
     cb\<lparr>cb_branches := cb_branches cb @
        [\<lparr> condition = cond, branch_operations = [], branch_assignments = [] \<rparr>]\<rparr>"

definition addElseBranch :: "ControlBlock \<Rightarrow> ControlBlock" where
  "addElseBranch cb = addBranch None cb"

definition addBranchOperation :: "nat \<Rightarrow> Operation \<Rightarrow> ControlBlock \<Rightarrow> ControlBlock" where
  "addBranchOperation branch_idx op cb =
     (if branch_idx < length (cb_branches cb)
      then cb\<lparr>cb_branches := (cb_branches cb)[branch_idx :=
                (cb_branches cb ! branch_idx)\<lparr>branch_operations :=
                   branch_operations (cb_branches cb ! branch_idx) @ [op]\<rparr>]\<rparr>
      else cb)"

definition addBranchAssignment :: "nat \<Rightarrow> SignalPtr \<Rightarrow> SignalPtr \<Rightarrow> ControlBlock \<Rightarrow> ControlBlock" where
  "addBranchAssignment branch_idx out inp cb =
     (if branch_idx < length (cb_branches cb)
      then cb\<lparr>cb_branches := (cb_branches cb)[branch_idx :=
                (cb_branches cb ! branch_idx)\<lparr>branch_assignments :=
                   branch_assignments (cb_branches cb ! branch_idx) @ [(out, inp)]\<rparr>]\<rparr>
      else cb)"


section \<open>Machine arithmetic and the random stream\<close>

text \<open>
  The generator computes with \<^verbatim>\<open>int\<close>.  Signed overflow, division by zero and a shift
  by a negative count are undefined in C++; the checked operations below return
  \<open>None\<close> there, and the partial functions of the engine pass that on.  Division and
  remainder truncate towards zero.
\<close>

definition in_int :: "int \<Rightarrow> bool" where
  "in_int x = (- (2 ^ 31) \<le> x \<and> x < 2 ^ 31)"

definition int_add :: "int \<Rightarrow> int \<Rightarrow> int option" where
  "int_add a b = (if in_int (a + b) then Some (a + b) else None)"

definition int_mul :: "int \<Rightarrow> int \<Rightarrow> int option" where
  "int_mul a b = (if in_int (a * b) then Some (a * b) else None)"

definition int_div :: "int \<Rightarrow> int \<Rightarrow> int option" where
  "int_div a b =
     (if b = 0 \<or> \<not> in_int (sgn a * sgn b * (\<bar>a\<bar> div \<bar>b\<bar>)) then None
      else Some (sgn a * sgn b * (\<bar>a\<bar> div \<bar>b\<bar>)))"

definition int_rem :: "int \<Rightarrow> int \<Rightarrow> int option" where
  "int_rem a b =
     (if b = 0 \<or> \<not> in_int (sgn a * sgn b * (\<bar>a\<bar> div \<bar>b\<bar>)) then None
      else Some (sgn a * (\<bar>a\<bar> mod \<bar>b\<bar>)))"

definition int_shl1 :: "int \<Rightarrow> int option" where
  "int_shl1 k = (if 0 \<le> k \<and> k < 31 then Some (2 ^ nat k) else None)"

text \<open>
  A \<^verbatim>\<open>for\<close> loop whose body can fail: the body runs on each element in turn and the
  first failure ends the loop.
\<close>

fun for_each :: "'a list \<Rightarrow> ('a \<Rightarrow> 's \<Rightarrow> 's option) \<Rightarrow> 's \<Rightarrow> 's option" where
  "for_each [] body s = Some s"
| "for_each (x # xs) body s =
     (case body x s of None \<Rightarrow> None | Some s' \<Rightarrow> for_each xs body s')"

text \<open>The values of \<^verbatim>\<open>i\<close> in \<^verbatim>\<open>for (int i = 0; i < n; ++i)\<close>.\<close>

definition int_range :: "int \<Rightarrow> int list" where
  "int_range n = map int [0..<nat n]"

text \<open>
  The class \<^verbatim>\<open>NetlistGenerator\<close>.  The configuration \<^verbatim>\<open>config_\<close> is never written
  after construction and is passed to each function as the argument \<open>c\<close>.  The member
  \<open>store\<close> is the model's store of signals.

  The engine \<^verbatim>\<open>std::mt19937\<close> and the distributions of \<^verbatim>\<open><random>\<close> are library
  code.  The member \<open>rng\<close> is the list of the raw numbers the engine is going to hand
  out, one for each call of a distribution (zeros once the list is used up), and a
  distribution maps the raw number onto its range.  Whatever sequence of results the
  library produces for a seed, some list produces it here, so what holds for every
  list holds for every seed.
\<close>

record NetlistGenerator =
  rng :: "nat list"
  store :: "Signal list"
  inputs :: "SignalPtr list"
  outputs :: "SignalPtr list"
  wires :: "SignalPtr list"
  regs :: "SignalPtr list"
  operations :: "Operation list"
  control_blocks :: "ControlBlock list"
  signal_counter :: int
  op_counter :: int

definition NetlistGenerator_ctor :: "nat list \<Rightarrow> NetlistGenerator" where
  "NetlistGenerator_ctor raw =
     \<lparr> rng = raw, store = [], inputs = [], outputs = [], wires = [], regs = [],
       operations = [], control_blocks = [], signal_counter = 0, op_counter = 0 \<rparr>"

definition next_raw :: "NetlistGenerator \<Rightarrow> nat \<times> NetlistGenerator" where
  "next_raw s = (case rng s of [] \<Rightarrow> (0, s) | r # rs \<Rightarrow> (r, s\<lparr>rng := rs\<rparr>))"

text \<open>\<^verbatim>\<open>std::make_shared<Signal>\<close>: the new signal goes to the end of the store.\<close>

definition make_shared_Signal :: "Signal \<Rightarrow> NetlistGenerator \<Rightarrow> SignalPtr \<times> NetlistGenerator" where
  "make_shared_Signal sg s = (length (store s), s\<lparr>store := store s @ [sg]\<rparr>)"

definition getWidth :: "NetlistGenerator \<Rightarrow> SignalPtr \<Rightarrow> int" where
  "getWidth s p = sig_width (store s ! p)"

definition isSigned :: "NetlistGenerator \<Rightarrow> SignalPtr \<Rightarrow> bool" where
  "isSigned s p = sig_signed (store s ! p)"

text \<open>
  \<^verbatim>\<open>std::uniform_int_distribution<int>(min, max)\<close> requires \<^verbatim>\<open>min <= max\<close>.
\<close>

definition randomInt :: "int \<Rightarrow> int \<Rightarrow> NetlistGenerator \<Rightarrow> (int \<times> NetlistGenerator) option" where
  "randomInt lo hi s =
     (if lo \<le> hi
      then let (r, s') = next_raw s in Some (lo + int (r mod nat (hi - lo + 1)), s')
      else None)"

definition randomBool :: "real \<Rightarrow> NetlistGenerator \<Rightarrow> bool \<times> NetlistGenerator" where
  "randomBool probability s = (let (r, s') = next_raw s in (odd r, s'))"

definition generateRandomWidth :: "GeneratorConfig \<Rightarrow> NetlistGenerator \<Rightarrow> (int \<times> NetlistGenerator) option" where
  "generateRandomWidth c s = randomInt (input_width_min c) (input_width_max c) s"

text \<open>The expression \<^verbatim>\<open>config_.use_signed && randomBool(0.5)\<close>, with its short circuit.\<close>

definition random_signed :: "GeneratorConfig \<Rightarrow> NetlistGenerator \<Rightarrow> bool \<times> NetlistGenerator" where
  "random_signed c s = (if use_signed c then randomBool 0.5 s else (False, s))"

text \<open>
  \<^verbatim>\<open>std::discrete_distribution\<close> over the given weights, as the standard defines it:
  an empty list of weights stands for the single weight 1; otherwise no weight may be
  negative and their sum must be positive, and position \<open>i\<close> has probability
  \<open>w\<^sub>i / S\<close>, so that only positions of positive weight are produced.
\<close>

definition discrete_distribution :: "real list \<Rightarrow> nat \<Rightarrow> nat option" where
  "discrete_distribution ws r =
     (if ws = [] then Some 0
      else if list_ex (\<lambda>w. w < 0) ws \<or> sum_list ws \<le> 0 then None
      else let positive = filter (\<lambda>i. 0 < ws ! i) [0..<length ws]
           in Some (positive ! (r mod length positive)))"

definition selectRandomSignal ::
  "SignalPtr list \<Rightarrow> NetlistGenerator \<Rightarrow> SignalPtr option \<times> NetlistGenerator" where
  "selectRandomSignal candidates s =
     (if candidates = [] then (None, s)
      else let (r, s') = next_raw s in (Some (candidates ! (r mod length candidates)), s'))"

definition getAvailableSignals :: "NetlistGenerator \<Rightarrow> SignalPtr list" where
  "getAvailableSignals s = inputs s @ wires s"

definition createWire :: "int \<Rightarrow> bool \<Rightarrow> NetlistGenerator \<Rightarrow> SignalPtr \<times> NetlistGenerator" where
  "createWire width is_signed s =
     (let name = ''wire_'' @ to_string (signal_counter s);
          s1 = s\<lparr>signal_counter := signal_counter s + 1\<rparr>;
          (wire, s2) = make_shared_Signal
             \<lparr> sig_name = name, sig_width = width, sig_type = WIRE, sig_signed = is_signed \<rparr> s1
      in (wire, s2\<lparr>wires := wires s2 @ [wire]\<rparr>))"

definition createReg :: "int \<Rightarrow> bool \<Rightarrow> NetlistGenerator \<Rightarrow> SignalPtr \<times> NetlistGenerator" where
  "createReg width is_signed s =
     (let name = ''reg_'' @ to_string (signal_counter s);
          s1 = s\<lparr>signal_counter := signal_counter s + 1\<rparr>;
          (reg, s2) = make_shared_Signal
             \<lparr> sig_name = name, sig_width = width, sig_type = REG, sig_signed = is_signed \<rparr> s1
      in (reg, s2\<lparr>regs := regs s2 @ [reg]\<rparr>))"

text \<open>
  \<^verbatim>\<open>selectRandomOpType\<close>: the vectors \<^verbatim>\<open>weights\<close> and \<^verbatim>\<open>types\<close> grow together and are
  kept here as one list of pairs.  Indexing \<^verbatim>\<open>types\<close> out of range is undefined.
\<close>

definition selectRandomOpType :: "GeneratorConfig \<Rightarrow> NetlistGenerator \<Rightarrow> (OpType \<times> NetlistGenerator) option" where
  "selectRandomOpType c s =
     (let weighted =
            (if weight_arithmetic c > 0 then [(weight_arithmetic c, ADD)] else []) @
            (if weight_logical c > 0 then [(weight_logical c, AND)] else []) @
            (if weight_comparison c > 0 then [(weight_comparison c, EQ)] else []) @
            (if weight_shift c > 0 then [(weight_shift c, SLL)] else []) @
            (if weight_mux c > 0 then [(weight_mux c, MUX2)] else []) @
            (if weight_concat c > 0 then [(weight_concat c, CONCAT)] else []) @
            (if weight_reduction c > 0 then [(weight_reduction c, RED_AND)] else []);
          weights = map fst weighted;
          types = map snd weighted;
          (r, s') = next_raw s
      in case discrete_distribution weights r of
           None \<Rightarrow> None
         | Some i \<Rightarrow> if i < length types then Some (types ! i, s') else None)"

definition selectArithmeticOpType :: "GeneratorConfig \<Rightarrow> NetlistGenerator \<Rightarrow> (OpType \<times> NetlistGenerator) option" where
  "selectArithmeticOpType c s =
     (let weights = [weight_add c, weight_sub c, weight_mult c, weight_div c, weight_mod c];
          types = [ADD, SUB, MULT, DIV, MOD];
          (r, s') = next_raw s
      in case discrete_distribution weights r of
           None \<Rightarrow> None
         | Some i \<Rightarrow> if i < length types then Some (types ! i, s') else None)"

definition selectShiftOpType :: "GeneratorConfig \<Rightarrow> NetlistGenerator \<Rightarrow> (OpType \<times> NetlistGenerator) option" where
  "selectShiftOpType c s =
     (let weights = [weight_sll c, weight_srl c, weight_sra c];
          types = [SLL, SRL, SRA];
          (r, s') = next_raw s
      in case discrete_distribution weights r of
           None \<Rightarrow> None
         | Some i \<Rightarrow> if i < length types then Some (types ! i, s') else None)"


section \<open>Operation generators\<close>

text \<open>
  Each generator returns the new operation, or \<open>None\<close> for \<^verbatim>\<open>nullptr\<close>, together
  with the generator's new state; the outer \<open>option\<close> is undefined behaviour.
\<close>

definition generateArithmeticOp ::
  "GeneratorConfig \<Rightarrow> SignalPtr list \<Rightarrow> NetlistGenerator \<Rightarrow> (Operation option \<times> NetlistGenerator) option"
where
  "generateArithmeticOp c available s =
     do {
       (ty, s1) \<leftarrow> selectArithmeticOpType c s;
       let (a, s2) = selectRandomSignal available s1;
       let (b, s3) = selectRandomSignal available s2;
       case (a, b) of
         (Some a, Some b) \<Rightarrow>
           do {
             out_width \<leftarrow> (if ty = MULT then int_add (getWidth s3 a) (getWidth s3 b)
                            else Some (max (getWidth s3 a) (getWidth s3 b)));
             let is_signed = (isSigned s3 a \<or> isSigned s3 b);
             let (out, s4) = createWire out_width is_signed s3;
             Some (Some (addInput b (addInput a (Operation_ctor ty out))), s4)
           }
       | _ \<Rightarrow> Some (None, s3)
     }"

definition generateLogicalOp ::
  "SignalPtr list \<Rightarrow> NetlistGenerator \<Rightarrow> (Operation option \<times> NetlistGenerator) option"
where
  "generateLogicalOp available s =
     do {
       let logical_ops = [AND, OR, XOR, NOT, NAND, NOR, XNOR];
       (i, s1) \<leftarrow> randomInt 0 (int (length logical_ops) - 1) s;
       let ty = logical_ops ! nat i;
       if ty = NOT then
         (let (a, s2) = selectRandomSignal available s1
          in case a of
               None \<Rightarrow> Some (None, s2)
             | Some a \<Rightarrow>
                 let (out, s3) = createWire (getWidth s2 a) (isSigned s2 a) s2
                 in Some (Some (addInput a (Operation_ctor ty out)), s3))
       else
         (let (a, s2) = selectRandomSignal available s1;
              (b, s3) = selectRandomSignal available s2
          in case (a, b) of
               (Some a, Some b) \<Rightarrow>
                 let out_width = max (getWidth s3 a) (getWidth s3 b);
                     (out, s4) = createWire out_width False s3
                 in Some (Some (addInput b (addInput a (Operation_ctor ty out))), s4)
             | _ \<Rightarrow> Some (None, s3))
     }"

definition generateComparisonOp ::
  "SignalPtr list \<Rightarrow> NetlistGenerator \<Rightarrow> (Operation option \<times> NetlistGenerator) option"
where
  "generateComparisonOp available s =
     do {
       let comp_ops = [EQ, NEQ, LT, GT, LTE, GTE];
       (i, s1) \<leftarrow> randomInt 0 (int (length comp_ops) - 1) s;
       let ty = comp_ops ! nat i;
       let (a, s2) = selectRandomSignal available s1;
       let (b, s3) = selectRandomSignal available s2;
       case (a, b) of
         (Some a, Some b) \<Rightarrow>
           let (out, s4) = createWire 1 False s3
           in Some (Some (addInput b (addInput a (Operation_ctor ty out))), s4)
       | _ \<Rightarrow> Some (None, s3)
     }"

definition generateShiftOp ::
  "GeneratorConfig \<Rightarrow> SignalPtr list \<Rightarrow> NetlistGenerator \<Rightarrow> (Operation option \<times> NetlistGenerator) option"
where
  "generateShiftOp c available s =
     do {
       (ty, s1) \<leftarrow> selectShiftOpType c s;
       let (a, s2) = selectRandomSignal available s1;
       let (b, s3) = selectRandomSignal available s2;
       case (a, b) of
         (Some a, Some b) \<Rightarrow>
           let (out, s4) = createWire (getWidth s3 a) (isSigned s3 a) s3
           in Some (Some (addInput b (addInput a (Operation_ctor ty out))), s4)
       | _ \<Rightarrow> Some (None, s3)
     }"

text \<open>
  The loop of the 4-way multiplexer that draws the four data inputs, keeping those
  that are not \<^verbatim>\<open>nullptr\<close>.
\<close>

definition draw_data_input ::
  "SignalPtr list \<Rightarrow> nat \<Rightarrow> SignalPtr list \<times> NetlistGenerator \<Rightarrow> SignalPtr list \<times> NetlistGenerator"
where
  "draw_data_input available i acc =
     (let (data_inputs, s) = acc;
          (d, s') = selectRandomSignal available s
      in case d of None \<Rightarrow> (data_inputs, s') | Some d \<Rightarrow> (data_inputs @ [d], s'))"

definition generateMuxOp ::
  "SignalPtr list \<Rightarrow> NetlistGenerator \<Rightarrow> (Operation option \<times> NetlistGenerator) option"
where
  "generateMuxOp available s =
     (let (use_mux4, s1) = randomBool 0.3 s;
          ty = (if use_mux4 then MUX4 else MUX2)
      in if ty = MUX2 then
           (let (sel, s2) = selectRandomSignal available s1;
                (a, s3) = selectRandomSignal available s2;
                (b, s4) = selectRandomSignal available s3
            in case (sel, a, b) of
                 (Some sel, Some a, Some b) \<Rightarrow>
                   let out_width = max (getWidth s4 a) (getWidth s4 b);
                       (out, s5) = createWire out_width (isSigned s4 a \<or> isSigned s4 b) s4
                   in Some (Some (addInput b (addInput a (addInput sel (Operation_ctor ty out)))), s5)
               | _ \<Rightarrow> Some (None, s4))
         else
           (let (sel0, s2) = selectRandomSignal available s1;
                (sel, s3) = (case sel0 of
                               None \<Rightarrow> createWire 2 False s2
                             | Some p \<Rightarrow> if getWidth s2 p < 2 then createWire 2 False s2 else (p, s2));
                (data_inputs, s4) = fold (draw_data_input available) [0..<4] ([], s3)
            in if length data_inputs < 4 then Some (None, s4)
               else
                 let out_width = getWidth s4 (data_inputs ! 0);
                     (out, s5) = createWire out_width False s4
                 in Some (Some (fold addInput data_inputs (addInput sel (Operation_ctor ty out))), s5)))"

text \<open>
  One round of the loop of \<^verbatim>\<open>generateConcatOp\<close>; the running sum \<^verbatim>\<open>total_width\<close> is
  an \<^verbatim>\<open>int\<close>.
\<close>

definition draw_concat_input ::
  "SignalPtr list \<Rightarrow> int \<Rightarrow> SignalPtr list \<times> int \<times> NetlistGenerator
     \<Rightarrow> (SignalPtr list \<times> int \<times> NetlistGenerator) option"
where
  "draw_concat_input available i acc =
     (let (ins, total_width, s) = acc;
          (sig, s') = selectRandomSignal available s
      in case sig of
           None \<Rightarrow> Some (ins, total_width, s')
         | Some p \<Rightarrow> map_option (\<lambda>w. (ins @ [p], w, s')) (int_add total_width (getWidth s' p)))"

definition generateConcatOp ::
  "SignalPtr list \<Rightarrow> NetlistGenerator \<Rightarrow> (Operation option \<times> NetlistGenerator) option"
where
  "generateConcatOp available s =
     do {
       (n, s1) \<leftarrow> randomInt 2 4 s;
       (ins, total_width, s2) \<leftarrow> for_each (int_range n) (draw_concat_input available) ([], 0, s1);
       if length ins < 2 then Some (None, s2)
       else
         let (out, s3) = createWire total_width False s2
         in Some (Some (fold addInput ins (Operation_ctor CONCAT out)), s3)
     }"

definition generateReductionOp ::
  "SignalPtr list \<Rightarrow> NetlistGenerator \<Rightarrow> (Operation option \<times> NetlistGenerator) option"
where
  "generateReductionOp available s =
     do {
       let red_ops = [RED_AND, RED_OR, RED_XOR, RED_NAND, RED_NOR, RED_XNOR];
       (i, s1) \<leftarrow> randomInt 0 (int (length red_ops) - 1) s;
       let ty = red_ops ! nat i;
       let (a, s2) = selectRandomSignal available s1;
       case a of
         None \<Rightarrow> Some (None, s2)
       | Some a \<Rightarrow>
           let (out, s3) = createWire 1 False s2
           in Some (Some (addInput a (Operation_ctor ty out)), s3)
     }"

section \<open>The phases of generation\<close>

definition generateInput :: "GeneratorConfig \<Rightarrow> int \<Rightarrow> NetlistGenerator \<Rightarrow> NetlistGenerator option" where
  "generateInput c i s =
     do {
       (width, s1) \<leftarrow> generateRandomWidth c s;
       let (is_signed, s2) = random_signed c s1;
       let name = ''in_'' @ to_string i;
       let (p, s3) = make_shared_Signal
             \<lparr> sig_name = name, sig_width = width, sig_type = INPUT, sig_signed = is_signed \<rparr> s2;
       Some (s3\<lparr>inputs := inputs s3 @ [p]\<rparr>)
     }"

definition generateInputs :: "GeneratorConfig \<Rightarrow> NetlistGenerator \<Rightarrow> NetlistGenerator option" where
  "generateInputs c s = for_each (int_range (num_inputs c)) (generateInput c) s"

definition generateOutput :: "GeneratorConfig \<Rightarrow> int \<Rightarrow> NetlistGenerator \<Rightarrow> NetlistGenerator option" where
  "generateOutput c i s =
     do {
       (width, s1) \<leftarrow> randomInt (output_width_min c) (output_width_max c) s;
       let (is_signed, s2) = random_signed c s1;
       let name = ''out_'' @ to_string i;
       let (p, s3) = make_shared_Signal
             \<lparr> sig_name = name, sig_width = width, sig_type = OUTPUT, sig_signed = is_signed \<rparr> s2;
       Some (s3\<lparr>outputs := outputs s3 @ [p]\<rparr>)
     }"

definition generateOutputs :: "GeneratorConfig \<Rightarrow> NetlistGenerator \<Rightarrow> NetlistGenerator option" where
  "generateOutputs c s = for_each (int_range (num_outputs c)) (generateOutput c) s"

text \<open>
  The body of the loop of \<^verbatim>\<open>generateDatapath\<close> up to the test \<^verbatim>\<open>if (op)\<close>: the
  operation attempted in this round, \<open>None\<close> when the attempt is skipped.
\<close>

definition datapath_attempt ::
  "GeneratorConfig \<Rightarrow> NetlistGenerator \<Rightarrow> (Operation option \<times> NetlistGenerator) option"
where
  "datapath_attempt c s =
     do {
       (ty, s1) \<leftarrow> selectRandomOpType c s;
       let available = (if getAvailableSignals s1 = [] then inputs s1 else getAvailableSignals s1);
       let v = OpType_value ty;
       if OpType_value ADD \<le> v \<and> v \<le> OpType_value MOD then generateArithmeticOp c available s1
       else if OpType_value AND \<le> v \<and> v \<le> OpType_value XNOR then generateLogicalOp available s1
       else if OpType_value EQ \<le> v \<and> v \<le> OpType_value GTE then generateComparisonOp available s1
       else if OpType_value SLL \<le> v \<and> v \<le> OpType_value SRA then generateShiftOp c available s1
       else if ty = MUX2 \<or> ty = MUX4 then generateMuxOp available s1
       else if ty = CONCAT then generateConcatOp available s1
       else if OpType_value RED_AND \<le> v \<and> v \<le> OpType_value RED_XNOR then generateReductionOp available s1
       else Some (None, s1)
     }"

definition datapath_round :: "GeneratorConfig \<Rightarrow> int \<Rightarrow> NetlistGenerator \<Rightarrow> NetlistGenerator option" where
  "datapath_round c i s =
     do {
       (op, s1) \<leftarrow> datapath_attempt c s;
       case op of
         None \<Rightarrow> Some s1
       | Some op \<Rightarrow> Some (s1\<lparr>operations := operations s1 @ [op]\<rparr>)
     }"

definition generateDatapath :: "GeneratorConfig \<Rightarrow> NetlistGenerator \<Rightarrow> NetlistGenerator option" where
  "generateDatapath c s = for_each (int_range (num_operations c)) (datapath_round c) s"

text \<open>
  \<^verbatim>\<open>generatePipeline\<close>: the stage is \<^verbatim>\<open>depth * num_pipeline_stages / max_depth\<close> in
  \<^verbatim>\<open>int\<close> arithmetic.
\<close>

definition pipeline_stage_of :: "GeneratorConfig \<Rightarrow> Operation \<Rightarrow> Operation option" where
  "pipeline_stage_of c op =
     do {
       m \<leftarrow> int_mul (op_depth op) (num_pipeline_stages c);
       stage \<leftarrow> int_div m (max_depth c);
       Some (setStage stage op)
     }"

definition generatePipeline :: "GeneratorConfig \<Rightarrow> NetlistGenerator \<Rightarrow> NetlistGenerator option" where
  "generatePipeline c s =
     map_option (\<lambda>ops. s\<lparr>operations := ops\<rparr>) (those (map (pipeline_stage_of c) (operations s)))"

text \<open>
  \<^verbatim>\<open>connectOutputs\<close>.  The body of its loop builds a local operation \<^verbatim>\<open>op\<close> that is
  stored nowhere and is destroyed at the end of the round; \<open>connect_output\<close> returns it
  next to the state, and the loop keeps the state only.
\<close>

definition connect_output ::
  "SignalPtr list \<Rightarrow> SignalPtr \<Rightarrow> NetlistGenerator \<Rightarrow> Operation option \<times> NetlistGenerator"
where
  "connect_output available out s =
     (if available \<noteq> [] then
        (let (source, s1) = selectRandomSignal available s;
             op = Operation_ctor AND out;
             op = (case source of None \<Rightarrow> op | Some p \<Rightarrow> addInput p op);
             op = (case source of None \<Rightarrow> op | Some p \<Rightarrow> addInput p op)
         in (Some op, s1))
      else (None, s))"

definition connectOutputs :: "NetlistGenerator \<Rightarrow> NetlistGenerator" where
  "connectOutputs s =
     (let available = getAvailableSignals s
      in fold (\<lambda>out s. snd (connect_output available out s)) (outputs s) s)"

text \<open>
  \<^verbatim>\<open>assignDepths\<close>: \<^verbatim>\<open>static_cast<int>(i) % config_.max_depth\<close> for the operation at
  position \<open>i\<close>.
\<close>

definition assign_depth :: "GeneratorConfig \<Rightarrow> nat \<times> Operation \<Rightarrow> Operation option" where
  "assign_depth c iop = map_option (\<lambda>d. setDepth d (snd iop)) (int_rem (int (fst iop)) (max_depth c))"

definition assignDepths :: "GeneratorConfig \<Rightarrow> NetlistGenerator \<Rightarrow> NetlistGenerator option" where
  "assignDepths c s =
     map_option (\<lambda>ops. s\<lparr>operations := ops\<rparr>)
       (those (map (assign_depth c) (enumerate 0 (operations s))))"


section \<open>Control blocks\<close>

text \<open>
  The loop that creates the register outputs of a control block, shared by
  \<^verbatim>\<open>generateCaseStatements\<close> and \<^verbatim>\<open>generateIfElseChains\<close>.
\<close>

definition create_block_output ::
  "GeneratorConfig \<Rightarrow> int \<Rightarrow> SignalPtr list \<times> NetlistGenerator
     \<Rightarrow> (SignalPtr list \<times> NetlistGenerator) option"
where
  "create_block_output c j acc =
     (let (outs, s) = acc
      in do {
           (width, s1) \<leftarrow> generateRandomWidth c s;
           let (is_signed, s2) = random_signed c s1;
           let (out, s3) = createReg width is_signed s2;
           Some (outs @ [out], s3)
         })"

text \<open>
  \<^verbatim>\<open>generateCaseStatements\<close>, innermost loop first: what one case does for one
  output.  The temporary wire has the width \<^verbatim>\<open>std::max\<close> of the operand widths for
  every arithmetic kind.
\<close>

definition case_assign_output ::
  "GeneratorConfig \<Rightarrow> SignalPtr list \<Rightarrow> int \<Rightarrow> SignalPtr \<Rightarrow> ControlBlock \<times> NetlistGenerator
     \<Rightarrow> (ControlBlock \<times> NetlistGenerator) option"
where
  "case_assign_output c available case_val out acc =
     (let (cb, s) = acc;
          (share, s1) = (if generate_sharing_opportunities c then randomBool 0.7 s else (False, s))
      in if share then
           (let (a, s2) = selectRandomSignal available s1;
                (b, s3) = selectRandomSignal available s2
            in case (a, b) of
                 (Some a, Some b) \<Rightarrow>
                   do {
                     (ty, s4) \<leftarrow> selectArithmeticOpType c s3;
                     let (temp_out, s5) = createWire (max (getWidth s4 a) (getWidth s4 b))
                                            (isSigned s4 a \<or> isSigned s4 b) s4;
                     let op = addInput b (addInput a (Operation_ctor ty temp_out));
                     Some (addCaseAssignment case_val out temp_out (addCaseOperation case_val op cb), s5)
                   }
               | _ \<Rightarrow> Some (cb, s3))
         else
           (let (inp, s2) = selectRandomSignal available s1
            in case inp of
                 None \<Rightarrow> Some (cb, s2)
               | Some inp \<Rightarrow> Some (addCaseAssignment case_val out inp cb, s2)))"

definition generate_case ::
  "GeneratorConfig \<Rightarrow> SignalPtr list \<Rightarrow> SignalPtr list \<Rightarrow> int \<Rightarrow> ControlBlock \<times> NetlistGenerator
     \<Rightarrow> (ControlBlock \<times> NetlistGenerator) option"
where
  "generate_case c available case_outputs case_val acc =
     (let (cb, s) = acc
      in for_each case_outputs (case_assign_output c available case_val) (addCase case_val cb, s))"

definition default_assign ::
  "SignalPtr list \<Rightarrow> SignalPtr \<Rightarrow> (SignalPtr \<times> SignalPtr) list \<times> NetlistGenerator
     \<Rightarrow> (SignalPtr \<times> SignalPtr) list \<times> NetlistGenerator"
where
  "default_assign available out acc =
     (let (default_assigns, s) = acc;
          (inp, s') = selectRandomSignal available s
      in case inp of
           None \<Rightarrow> (default_assigns, s')
         | Some inp \<Rightarrow> (default_assigns @ [(out, inp)], s'))"

definition generate_case_statement :: "GeneratorConfig \<Rightarrow> int \<Rightarrow> NetlistGenerator \<Rightarrow> NetlistGenerator option" where
  "generate_case_statement c i s =
     (let available = getAvailableSignals s
      in if available = [] then Some s
         else
           let (selector, s1) = selectRandomSignal available s
           in case selector of
                None \<Rightarrow> Some s1
              | Some selector \<Rightarrow>
                  do {
                    shifted \<leftarrow> int_shl1 (min (getWidth s1 selector) 4);
                    let max_case_value = min shifted (cases_per_statement c);
                    let cb = ControlBlock_ctor CASE_STATEMENT (Some selector);
                    (num_outs, s2) \<leftarrow> randomInt 1 3 s1;
                    (case_outputs, s3) \<leftarrow> for_each (int_range num_outs) (create_block_output c) ([], s2);
                    (cb, s4) \<leftarrow> for_each (int_range max_case_value)
                                   (generate_case c available case_outputs) (cb, s3);
                    let (default_assigns, s5) = fold (default_assign available) case_outputs ([], s4);
                    let cb = setDefaultCase default_assigns cb;
                    Some (s5\<lparr>control_blocks := control_blocks s5 @ [cb]\<rparr>)
                  })"

definition generateCaseStatements :: "GeneratorConfig \<Rightarrow> NetlistGenerator \<Rightarrow> NetlistGenerator option" where
  "generateCaseStatements c s =
     (let num_cases = (if num_case_statements c > 0 then num_case_statements c
                       else if generate_case_statements c then 2 else 0)
      in for_each (int_range num_cases) (generate_case_statement c) s)"

text \<open>
  \<^verbatim>\<open>generateIfElseChains\<close>: what one branch does for one shared output.  The branch
  is addressed by its loop index.
\<close>

definition branch_assign_output ::
  "GeneratorConfig \<Rightarrow> SignalPtr list \<Rightarrow> int \<Rightarrow> SignalPtr \<Rightarrow> ControlBlock \<times> NetlistGenerator
     \<Rightarrow> (ControlBlock \<times> NetlistGenerator) option"
where
  "branch_assign_output c available branch out acc =
     (let (cb, s) = acc;
          (share, s1) = (if generate_sharing_opportunities c then randomBool 0.8 s else (False, s))
      in if share then
           (let (a, s2) = selectRandomSignal available s1;
                (b, s3) = selectRandomSignal available s2
            in case (a, b) of
                 (Some a, Some b) \<Rightarrow>
                   do {
                     let ty = MULT;
                     w \<leftarrow> int_add (getWidth s3 a) (getWidth s3 b);
                     let (temp_out, s4) = createWire w (isSigned s3 a \<or> isSigned s3 b) s3;
                     let op = addInput b (addInput a (Operation_ctor ty temp_out));
                     Some (addBranchAssignment (nat branch) out temp_out
                             (addBranchOperation (nat branch) op cb), s4)
                   }
               | _ \<Rightarrow> Some (cb, s3))
         else
           (let (inp, s2) = selectRandomSignal available s1
            in case inp of
                 None \<Rightarrow> Some (cb, s2)
               | Some inp \<Rightarrow> Some (addBranchAssignment (nat branch) out inp cb, s2)))"

definition generate_branch ::
  "GeneratorConfig \<Rightarrow> SignalPtr list \<Rightarrow> SignalPtr list \<Rightarrow> int \<Rightarrow> int \<Rightarrow> ControlBlock \<times> NetlistGenerator
     \<Rightarrow> (ControlBlock \<times> NetlistGenerator) option"
where
  "generate_branch c available shared_outputs num_branches branch acc =
     (let (cb, s) = acc
      in if branch < num_branches - 1 then
           (let (cond, s1) = selectRandomSignal available s
            in case cond of
                 None \<Rightarrow> Some (cb, s1)
               | Some cond \<Rightarrow>
                   for_each shared_outputs (branch_assign_output c available branch)
                     (addBranch (Some cond) cb, s1))
         else
           for_each shared_outputs (branch_assign_output c available branch) (addElseBranch cb, s))"

definition generate_if_else_chain :: "GeneratorConfig \<Rightarrow> int \<Rightarrow> NetlistGenerator \<Rightarrow> NetlistGenerator option" where
  "generate_if_else_chain c i s =
     (let available = getAvailableSignals s
      in if length available < 3 then Some s
         else
           do {
             let cb = ControlBlock_ctor IF_ELSE_CHAIN None;
             (num_outs, s1) \<leftarrow> randomInt 1 3 s;
             (shared_outputs, s2) \<leftarrow> for_each (int_range num_outs) (create_block_output c) ([], s1);
             (num_branches, s3) \<leftarrow> randomInt 2 4 s2;
             (cb, s4) \<leftarrow> for_each (int_range num_branches)
                            (generate_branch c available shared_outputs num_branches) (cb, s3);
             Some (s4\<lparr>control_blocks := control_blocks s4 @ [cb]\<rparr>)
           })"

definition generateIfElseChains :: "GeneratorConfig \<Rightarrow> NetlistGenerator \<Rightarrow> NetlistGenerator option" where
  "generateIfElseChains c s =
     (let num_chains = (if num_if_else_chains c > 0 then num_if_else_chains c
                        else if generate_if_else_chains c then 2 else 0)
      in for_each (int_range num_chains) (generate_if_else_chain c) s)"

text \<open>\<^verbatim>\<open>generateSharingOpportunities\<close>, innermost loop first.\<close>

definition sharing_operation ::
  "SignalPtr list \<Rightarrow> int \<Rightarrow> NetlistGenerator \<Rightarrow> NetlistGenerator option"
where
  "sharing_operation available i s =
     (let (a, s1) = selectRandomSignal available s;
          (b, s2) = selectRandomSignal available s1
      in case (a, b) of
           (Some a, Some b) \<Rightarrow>
             do {
               let (mult, s3) = randomBool 0.7 s2;
               let ty = (if mult then MULT else ADD);
               out_width \<leftarrow> (if ty = MULT then int_add (getWidth s3 a) (getWidth s3 b)
                              else Some (max (getWidth s3 a) (getWidth s3 b)));
               let (result, s4) = createWire out_width (isSigned s3 a \<or> isSigned s3 b) s3;
               let op = addInput b (addInput a (Operation_ctor ty result));
               Some (s4\<lparr>operations := operations s4 @ [op]\<rparr>)
             }
         | _ \<Rightarrow> Some s2)"

definition sharing_group :: "SignalPtr list \<Rightarrow> int \<Rightarrow> NetlistGenerator \<Rightarrow> NetlistGenerator option" where
  "sharing_group available g s =
     (let (enable, s1) = selectRandomSignal available s
      in case enable of
           None \<Rightarrow> Some s1
         | Some enable \<Rightarrow>
             do {
               (ops_in_group, s2) \<leftarrow> randomInt 2 3 s1;
               for_each (int_range ops_in_group) (sharing_operation available) s2
             })"

definition generateSharingOpportunities :: "NetlistGenerator \<Rightarrow> NetlistGenerator option" where
  "generateSharingOpportunities s =
     (let available = getAvailableSignals s
      in if length available < 4 then Some s
         else
           do {
             (num_groups, s1) \<leftarrow> randomInt 1 3 s;
             for_each (int_range num_groups) (sharing_group available) s1
           })"

definition generateControlBlocks :: "GeneratorConfig \<Rightarrow> NetlistGenerator \<Rightarrow> NetlistGenerator option" where
  "generateControlBlocks c s =
     do {
       s1 \<leftarrow> (if generate_case_statements c \<or> num_case_statements c > 0
               then generateCaseStatements c s else Some s);
       s2 \<leftarrow> (if generate_if_else_chains c \<or> num_if_else_chains c > 0
               then generateIfElseChains c s1 else Some s1);
       if generate_sharing_opportunities c then generateSharingOpportunities s2 else Some s2
     }"

text \<open>
  \<^verbatim>\<open>NetlistGenerator::generate\<close>, and a whole run: construction from the configuration
  and the raw stream of its seed, then generation.
\<close>

definition generate :: "GeneratorConfig \<Rightarrow> NetlistGenerator \<Rightarrow> NetlistGenerator option" where
  "generate c s =
     do {
       s1 \<leftarrow> generateInputs c s;
       s2 \<leftarrow> generateOutputs c s1;
       s3 \<leftarrow> generateDatapath c s2;
       s4 \<leftarrow> (if num_pipeline_stages c > 0 then generatePipeline c s3 else Some s3);
       s5 \<leftarrow> generateControlBlocks c s4;
       let s6 = connectOutputs s5;
       assignDepths c s6
     }"

definition run :: "GeneratorConfig \<Rightarrow> nat list \<Rightarrow> NetlistGenerator option" where
  "run c raw = generate c (NetlistGenerator_ctor raw)"


section \<open>The finished graph\<close>

text \<open>
  What the generator hands to the code that renders the graph: the sequences of
  signals, the main operation sequence and the control blocks.  The operations of a
  control block are those of its cases and of its branches.
\<close>

definition cb_operations :: "ControlBlock \<Rightarrow> Operation list" where
  "cb_operations cb =
     concat (map case_operations (cb_cases cb)) @ concat (map branch_operations (cb_branches cb))"

definition all_operations :: "NetlistGenerator \<Rightarrow> Operation list" where
  "all_operations g = operations g @ concat (map cb_operations (control_blocks g))"

text \<open>
  The arity of an operation against \<^verbatim>\<open>getRequiredOperands\<close>: exact for every kind
  but concatenation, for which the number returned is the minimum.
\<close>

definition has_required_operands :: "Operation \<Rightarrow> bool" where
  "has_required_operands op =
     (if op_type op = CONCAT
      then getRequiredOperands (op_type op) \<le> int (length (op_inputs op))
      else int (length (op_inputs op)) = getRequiredOperands (op_type op))"

text \<open>
  Signals enter the store in the order of their creation, and an operation is
  constructed right after its output signal.  So an operand that stands before the
  output in the store was created before the output, and hence before the operation.
\<close>

definition operands_before_output :: "Operation \<Rightarrow> bool" where
  "operands_before_output op = list_all (\<lambda>p. p < op_output op) (op_inputs op)"

text \<open>The signals written by a list of assignments (output, input).\<close>

definition written :: "(SignalPtr \<times> SignalPtr) list \<Rightarrow> SignalPtr set" where
  "written assigns = fst ` set assigns"

text \<open>
  Every case of the block, its default case if it is a case statement, and every
  branch write exactly the signals \<open>R\<close>.
\<close>

definition writes_same :: "SignalPtr set \<Rightarrow> ControlBlock \<Rightarrow> bool" where
  "writes_same R cb =
     (list_all (\<lambda>ci. written (case_assignments ci) = R) (cb_cases cb) \<and>
      (if cb_type cb = CASE_STATEMENT then written (cb_default_assignments cb) = R else True) \<and>
      list_all (\<lambda>br. written (branch_assignments br) = R) (cb_branches cb))"

text \<open>
  The pointers the generator holds point into the store, and those in \<open>regs\<close> point
  to signals of the register role.
\<close>

definition store_ok :: "NetlistGenerator \<Rightarrow> bool" where
  "store_ok s =
     (list_all (\<lambda>p. p < length (store s)) (inputs s @ wires s) \<and>
      list_all (\<lambda>r. r < length (store s) \<and> sig_type (store s ! r) = REG) (regs s))"

section \<open>Invariants of generation\<close>

text \<open>Two states that differ in the random stream at most.\<close>

definition same_graph :: "NetlistGenerator \<Rightarrow> NetlistGenerator \<Rightarrow> bool" where
  "same_graph s s' \<longleftrightarrow>
     store s' = store s \<and> inputs s' = inputs s \<and> outputs s' = outputs s \<and> wires s' = wires s \<and>
     regs s' = regs s \<and> operations s' = operations s \<and> control_blocks s' = control_blocks s \<and>
     signal_counter s' = signal_counter s"

text \<open>
  A step that may create wires and registers and nothing else: the store does not
  shrink, no register is lost, and the inputs, outputs, operations and control blocks
  stay.
\<close>

definition grows :: "NetlistGenerator \<Rightarrow> NetlistGenerator \<Rightarrow> bool" where
  "grows s s' \<longleftrightarrow>
     length (store s) \<le> length (store s') \<and> inputs s' = inputs s \<and> outputs s' = outputs s \<and>
     set (regs s) \<subseteq> set (regs s') \<and> operations s' = operations s \<and>
     control_blocks s' = control_blocks s \<and> (store_ok s \<longrightarrow> store_ok s')"

definition op_wf :: "Operation \<Rightarrow> bool" where
  "op_wf op \<longleftrightarrow> has_required_operands op \<and> operands_before_output op"

definition control_ok :: "NetlistGenerator \<Rightarrow> bool" where
  "control_ok s \<longleftrightarrow>
     list_all (\<lambda>cb. \<exists>R. R \<subseteq> set (regs s) \<and> writes_same R cb) (control_blocks s)"

definition graph_inv :: "NetlistGenerator \<Rightarrow> bool" where
  "graph_inv s \<longleftrightarrow> store_ok s \<and> list_all op_wf (all_operations s) \<and> control_ok s"

section \<open>Example configurations\<close>

text \<open>
  A configuration as the constructor leaves it, with the indeterminate members fixed
  and the clock at 42, a small configuration file, and conversions that read the two
  numbers the file contains.
\<close>

definition example_indeterminate :: Indeterminate where
  "example_indeterminate =
     \<lparr> ind_generate_case_statements = False, ind_generate_if_else_chains = False,
       ind_generate_sharing_opportunities = False, ind_num_case_statements = 0,
       ind_num_if_else_chains = 0, ind_cases_per_statement = 4 \<rparr>"

definition default_config :: GeneratorConfig where
  "default_config = GeneratorConfig_ctor 42 example_indeterminate"

definition example_conversions :: Conversions where
  "example_conversions =
     \<lparr> stoul = (\<lambda>v. if v = ''7'' then Some 7 else None),
       stoi = (\<lambda>v. if v = ''3'' then Some 3 else None),
       stod = (\<lambda>v. if v = ''0.9'' then Some 0.9 else None) \<rparr>"

definition example_file :: "string list" where
  "example_file =
     [''# a comment'',
      ''num_inputs = 3'',
      ''weight_add = 0.9'',
      ''generate_case_statements=true'']"

text \<open>
  Four small configurations for the engine, each with the raw stream of one seed.

  \<open>adder_config\<close>: two 8-bit unsigned inputs, one 8-bit output, two operations, all of
  them additions, two pipeline stages over a maximal depth of two.
\<close>

definition adder_config :: GeneratorConfig where
  "adder_config = default_config
     \<lparr> num_inputs := 2, num_outputs := 1, input_width_min := 8, input_width_max := 8,
       output_width_min := 8, output_width_max := 8, num_operations := 2, max_depth := 2,
       num_pipeline_stages := 2, weight_arithmetic := 1, weight_logical := 0,
       weight_comparison := 0, weight_shift := 0, weight_mux := 0, weight_concat := 0,
       weight_reduction := 0, weight_add := 1, weight_sub := 0, weight_mult := 0,
       weight_div := 0, weight_mod := 0, use_signed := False \<rparr>"

definition adder_raw :: "nat list" where
  "adder_raw = [0, 0, 0, 0, 0, 0, 1, 0, 0, 1, 2]"

definition adder_graph :: NetlistGenerator where
  "adder_graph =
     \<lparr> rng = [],
       store =
         [\<lparr>sig_name = ''in_0'', sig_width = 8, sig_type = INPUT, sig_signed = False\<rparr>,
          \<lparr>sig_name = ''in_1'', sig_width = 8, sig_type = INPUT, sig_signed = False\<rparr>,
          \<lparr>sig_name = ''out_0'', sig_width = 8, sig_type = OUTPUT, sig_signed = False\<rparr>,
          \<lparr>sig_name = ''wire_0'', sig_width = 8, sig_type = WIRE, sig_signed = False\<rparr>,
          \<lparr>sig_name = ''wire_1'', sig_width = 8, sig_type = WIRE, sig_signed = False\<rparr>],
       inputs = [0, 1], outputs = [2], wires = [3, 4], regs = [],
       operations =
         [\<lparr>op_type = ADD, op_output = 3, op_inputs = [0, 1], op_constants = [],
            op_depth = 0, op_stage = 0\<rparr>,
          \<lparr>op_type = ADD, op_output = 4, op_inputs = [1, 3], op_constants = [],
            op_depth = 1, op_stage = 0\<rparr>],
       control_blocks = [], signal_counter = 2, op_counter = 0 \<rparr>"

text \<open>
  \<open>control_config\<close>: one 8-bit input, one output, one operation (a multiplication),
  one case statement with one case and one if/else chain, with sharing
  opportunities switched on.
\<close>

definition control_config :: GeneratorConfig where
  "control_config = default_config
     \<lparr> num_inputs := 1, num_outputs := 1, input_width_min := 8, input_width_max := 8,
       output_width_min := 8, output_width_max := 8, num_operations := 1,
       weight_arithmetic := 1, weight_logical := 0,
       weight_comparison := 0, weight_shift := 0, weight_mux := 0, weight_concat := 0,
       weight_reduction := 0, weight_add := 0, weight_sub := 0, weight_mult := 1,
       weight_div := 0, weight_mod := 0, use_signed := False,
       generate_case_statements := True, generate_if_else_chains := True,
       generate_sharing_opportunities := True, num_case_statements := 1,
       num_if_else_chains := 1, cases_per_statement := 1 \<rparr>"

definition control_raw :: "nat list" where
  "control_raw = [0, 0, 0, 0, 0, 0, 0, 0, 0, 1, 0, 1, 0, 0, 0, 0, 0, 0, 0, 1, 0, 2]"

definition control_graph :: NetlistGenerator where
  "control_graph =
     \<lparr> rng = [],
       store =
         [\<lparr>sig_name = ''in_0'', sig_width = 8, sig_type = INPUT, sig_signed = False\<rparr>,
          \<lparr>sig_name = ''out_0'', sig_width = 8, sig_type = OUTPUT, sig_signed = False\<rparr>,
          \<lparr>sig_name = ''wire_0'', sig_width = 16, sig_type = WIRE, sig_signed = False\<rparr>,
          \<lparr>sig_name = ''reg_1'', sig_width = 8, sig_type = REG, sig_signed = False\<rparr>,
          \<lparr>sig_name = ''wire_2'', sig_width = 16, sig_type = WIRE, sig_signed = False\<rparr>,
          \<lparr>sig_name = ''reg_3'', sig_width = 8, sig_type = REG, sig_signed = False\<rparr>],
       inputs = [0], outputs = [1], wires = [2, 4], regs = [3, 5],
       operations =
         [\<lparr>op_type = MULT, op_output = 2, op_inputs = [0, 0], op_constants = [],
            op_depth = 0, op_stage = 0\<rparr>],
       control_blocks =
         [\<lparr>cb_type = CASE_STATEMENT, cb_select = Some 0,
            cb_cases =
              [\<lparr>case_value = 0,
                 case_operations =
                   [\<lparr>op_type = MULT, op_output = 4, op_inputs = [0, 2], op_constants = [],
                      op_depth = 0, op_stage = 0\<rparr>],
                 case_assignments = [(3, 4)]\<rparr>],
            cb_default_assignments = [(3, 0)], cb_branches = []\<rparr>,
          \<lparr>cb_type = IF_ELSE_CHAIN, cb_select = None, cb_cases = [],
            cb_default_assignments = [],
            cb_branches =
              [\<lparr>condition = Some 0, branch_operations = [], branch_assignments = [(5, 2)]\<rparr>,
               \<lparr>condition = None, branch_operations = [], branch_assignments = [(5, 4)]\<rparr>]\<rparr>],
       signal_counter = 4, op_counter = 0 \<rparr>"

text \<open>
  \<open>mux_config\<close>: no input, one output, two operations, all of them multiplexers.
  \<open>no_input_config\<close>: no input, one output, two operations, all of them additions.
\<close>

definition mux_config :: GeneratorConfig where
  "mux_config = default_config
     \<lparr> num_inputs := 0, num_outputs := 1, input_width_min := 8, input_width_max := 8,
       output_width_min := 8, output_width_max := 8, num_operations := 2,
       weight_arithmetic := 0, weight_logical := 0,
       weight_comparison := 0, weight_shift := 0, weight_mux := 1, weight_concat := 0,
       weight_reduction := 0, use_signed := False \<rparr>"

definition mux_raw :: "nat list" where
  "mux_raw = [0, 0, 1]"

definition mux_graph :: NetlistGenerator where
  "mux_graph =
     \<lparr> rng = [],
       store =
         [\<lparr>sig_name = ''out_0'', sig_width = 8, sig_type = OUTPUT, sig_signed = False\<rparr>,
          \<lparr>sig_name = ''wire_0'', sig_width = 2, sig_type = WIRE, sig_signed = False\<rparr>,
          \<lparr>sig_name = ''wire_1'', sig_width = 2, sig_type = WIRE, sig_signed = False\<rparr>],
       inputs = [], outputs = [0], wires = [1, 2], regs = [],
       operations =
         [\<lparr>op_type = MUX2, op_output = 2, op_inputs = [1, 1, 1], op_constants = [],
            op_depth = 0, op_stage = 0\<rparr>],
       control_blocks = [], signal_counter = 2, op_counter = 0 \<rparr>"

definition no_input_config :: GeneratorConfig where
  "no_input_config = default_config
     \<lparr> num_inputs := 0, num_outputs := 1, input_width_min := 8, input_width_max := 8,
       output_width_min := 8, output_width_max := 8, num_operations := 2,
       weight_arithmetic := 1, weight_logical := 0,
       weight_comparison := 0, weight_shift := 0, weight_mux := 0, weight_concat := 0,
       weight_reduction := 0, use_signed := False \<rparr>"

definition no_input_graph :: NetlistGenerator where
  "no_input_graph =
     \<lparr> rng = [],
       store =
         [\<lparr>sig_name = ''out_0'', sig_width = 8, sig_type = OUTPUT, sig_signed = False\<rparr>],
       inputs = [], outputs = [0], wires = [], regs = [],
       operations = [], control_blocks = [], signal_counter = 0, op_counter = 0 \<rparr>"

section \<open>Properties of the configuration layer\<close>

lemma validate_iff:
  "validate c \<longleftrightarrow>
     (1 \<le> num_inputs c \<and> num_inputs c \<le> 1000 \<and>
      1 \<le> num_outputs c \<and> num_outputs c \<le> 1000 \<and>
      1 \<le> input_width_min c \<and> input_width_min c \<le> input_width_max c \<and>
      1 \<le> output_width_min c \<and> output_width_min c \<le> output_width_max c \<and>
      1 \<le> num_operations c \<and>
      0 < weight_arithmetic c + weight_logical c + weight_comparison c + weight_shift c +
          weight_mux c + weight_concat c + weight_reduction c)"
  unfolding validate_def Let_def by auto





text \<open>The members that no key of the configuration file reaches.\<close>

lemma assign_key_frame:
  assumes "assign_key cv n key val c = Some (c', w)"
  shows "generate_case_statements c' = generate_case_statements c \<and>
         generate_if_else_chains c' = generate_if_else_chains c \<and>
         generate_sharing_opportunities c' = generate_sharing_opportunities c \<and>
         num_case_statements c' = num_case_statements c \<and>
         num_if_else_chains c' = num_if_else_chains c \<and>
         cases_per_statement c' = cases_per_statement c \<and>
         weight_add c' = weight_add c \<and> weight_sub c' = weight_sub c \<and>
         weight_mult c' = weight_mult c \<and> weight_div c' = weight_div c \<and>
         weight_mod c' = weight_mod c \<and> weight_sll c' = weight_sll c \<and>
         weight_srl c' = weight_srl c \<and> weight_sra c' = weight_sra c \<and>
         use_parameters c' = use_parameters c \<and> use_signed c' = use_signed c \<and>
         use_tristate c' = use_tristate c \<and> generate_testbench c' = generate_testbench c"
  using assms unfolding assign_key_def
  by (auto split: if_splits)

lemma load_line_frame:
  assumes "load_line cv n line c = Some (c', w)"
  shows "generate_case_statements c' = generate_case_statements c \<and>
         generate_if_else_chains c' = generate_if_else_chains c \<and>
         generate_sharing_opportunities c' = generate_sharing_opportunities c \<and>
         num_case_statements c' = num_case_statements c \<and>
         num_if_else_chains c' = num_if_else_chains c \<and>
         cases_per_statement c' = cases_per_statement c \<and>
         weight_add c' = weight_add c \<and> weight_sub c' = weight_sub c \<and>
         weight_mult c' = weight_mult c \<and> weight_div c' = weight_div c \<and>
         weight_mod c' = weight_mod c \<and> weight_sll c' = weight_sll c \<and>
         weight_srl c' = weight_srl c \<and> weight_sra c' = weight_sra c \<and>
         use_parameters c' = use_parameters c \<and> use_signed c' = use_signed c \<and>
         use_tristate c' = use_tristate c \<and> generate_testbench c' = generate_testbench c"
proof (cases "line = [] \<or> hd line = CHR ''#''")
  case True
  with assms show ?thesis by (simp add: load_line_def)
next
  case False
  show ?thesis
  proof (cases "split_key_value line")
    case None
    with False assms show ?thesis by (simp add: load_line_def)
  next
    case (Some kv)
    obtain key val where "kv = (key, val)" by (cases kv)
    with False Some assms have "assign_key cv n (trim key) (trim val) c = Some (c', w)"
      by (simp add: load_line_def)
    then show ?thesis by (rule assign_key_frame)
  qed
qed

lemma load_lines_frame:
  "load_lines cv n lines c err = (ok, c', err') \<Longrightarrow>
     generate_case_statements c' = generate_case_statements c \<and>
     generate_if_else_chains c' = generate_if_else_chains c \<and>
     generate_sharing_opportunities c' = generate_sharing_opportunities c \<and>
     num_case_statements c' = num_case_statements c \<and>
     num_if_else_chains c' = num_if_else_chains c \<and>
     cases_per_statement c' = cases_per_statement c \<and>
     weight_add c' = weight_add c \<and> weight_sub c' = weight_sub c \<and>
     weight_mult c' = weight_mult c \<and> weight_div c' = weight_div c \<and>
     weight_mod c' = weight_mod c \<and> weight_sll c' = weight_sll c \<and>
     weight_srl c' = weight_srl c \<and> weight_sra c' = weight_sra c \<and>
     use_parameters c' = use_parameters c \<and> use_signed c' = use_signed c \<and>
     use_tristate c' = use_tristate c \<and> generate_testbench c' = generate_testbench c"
proof (induction lines arbitrary: n c err)
  case Nil
  then show ?case by simp
next
  case (Cons line rest)
  show ?case
  proof (cases "load_line cv (Suc n) line c")
    case None
    with Cons.prems show ?thesis by simp
  next
    case (Some r)
    obtain c1 w where r: "r = (c1, w)" by (cases r)
    from Cons.prems Some r have "load_lines cv (Suc n) rest c1 (err @ w) = (ok, c', err')"
      by simp
    from Cons.IH [OF this] load_line_frame [OF Some [unfolded r]]
    show ?thesis by simp
  qed
qed


lemma digits_small: "n < 10 \<Longrightarrow> digits n = [''0123456789'' ! n]"
  by (subst digits.simps) simp

lemma unknown_key_warns:
  assumes "key \<in> set [''generate_case_statements'', ''generate_if_else_chains'',
                ''generate_sharing_opportunities'', ''num_case_statements'',
                ''num_if_else_chains'', ''cases_per_statement'',
                ''weight_add'', ''weight_sub'', ''weight_mult'', ''weight_div'', ''weight_mod'',
                ''weight_sll'', ''weight_srl'', ''weight_sra'']"
  shows "assign_key cv n key val c =
     Some (c, [''Warning: Unknown config key '' @ [CHR 0x27] @ key @ [CHR 0x27] @
               '' at line '' @ to_string (int n)])"
  using assms
  apply (simp only: list.set insert_iff empty_iff)
  apply (elim disjE)
  apply (simp_all add: assign_key_def)
  done

lemma example_load:
  "loadFromFile example_conversions (Some example_file) default_config =
     (True, default_config\<lparr>num_inputs := 3\<rparr>,
      [''Warning: Unknown config key '' @ [CHR 0x27] @ ''weight_add'' @ [CHR 0x27] @ '' at line 3'',
       ''Warning: Unknown config key '' @ [CHR 0x27] @ ''generate_case_statements'' @ [CHR 0x27] @
       '' at line 4''])"
proof -
  have v: "validate (default_config\<lparr>num_inputs := 3\<rparr>)"
    by (simp add: validate_iff default_config_def GeneratorConfig_ctor_def)
  show ?thesis
    by (simp add: loadFromFile_def example_file_def load_line_def split_key_value_def trim_def
          is_blank_def assign_key_def example_conversions_def to_string_def digits_small v)
qed

text \<open>
  C9.  Whatever the file holds, \<^verbatim>\<open>loadFromFile\<close> returns with the control-flow
  parameters and the weights of the single arithmetic and shift kinds as they were
  before the call (and likewise the four feature flags, for which there is no key
  either).  A line whose key is the name of one of these members changes nothing in
  the configuration and writes the warning for an unknown key.
\<close>

theorem loadFromFile_frame:
  "(loadFromFile cv file c = (ok, c', err) \<longrightarrow>
      generate_case_statements c' = generate_case_statements c \<and>
      generate_if_else_chains c' = generate_if_else_chains c \<and>
      generate_sharing_opportunities c' = generate_sharing_opportunities c \<and>
      num_case_statements c' = num_case_statements c \<and>
      num_if_else_chains c' = num_if_else_chains c \<and>
      cases_per_statement c' = cases_per_statement c \<and>
      weight_add c' = weight_add c \<and> weight_sub c' = weight_sub c \<and>
      weight_mult c' = weight_mult c \<and> weight_div c' = weight_div c \<and>
      weight_mod c' = weight_mod c \<and> weight_sll c' = weight_sll c \<and>
      weight_srl c' = weight_srl c \<and> weight_sra c' = weight_sra c \<and>
      use_parameters c' = use_parameters c \<and> use_signed c' = use_signed c \<and>
      use_tristate c' = use_tristate c \<and> generate_testbench c' = generate_testbench c) \<and>
   (key \<in> set [''generate_case_statements'', ''generate_if_else_chains'',
                 ''generate_sharing_opportunities'', ''num_case_statements'',
                 ''num_if_else_chains'', ''cases_per_statement'',
                 ''weight_add'', ''weight_sub'', ''weight_mult'', ''weight_div'', ''weight_mod'',
                 ''weight_sll'', ''weight_srl'', ''weight_sra''] \<longrightarrow>
      assign_key cv n key val c =
        Some (c, [''Warning: Unknown config key '' @ [CHR 0x27] @ key @ [CHR 0x27] @
                  '' at line '' @ to_string (int n)]))"
proof (rule conjI; rule impI)
  assume load: "loadFromFile cv file c = (ok, c', err)"
  show "generate_case_statements c' = generate_case_statements c \<and>
      generate_if_else_chains c' = generate_if_else_chains c \<and>
      generate_sharing_opportunities c' = generate_sharing_opportunities c \<and>
      num_case_statements c' = num_case_statements c \<and>
      num_if_else_chains c' = num_if_else_chains c \<and>
      cases_per_statement c' = cases_per_statement c \<and>
      weight_add c' = weight_add c \<and> weight_sub c' = weight_sub c \<and>
      weight_mult c' = weight_mult c \<and> weight_div c' = weight_div c \<and>
      weight_mod c' = weight_mod c \<and> weight_sll c' = weight_sll c \<and>
      weight_srl c' = weight_srl c \<and> weight_sra c' = weight_sra c \<and>
      use_parameters c' = use_parameters c \<and> use_signed c' = use_signed c \<and>
      use_tristate c' = use_tristate c \<and> generate_testbench c' = generate_testbench c"
  proof (cases "file")
    case None
    with load show ?thesis by (simp add: loadFromFile_def)
  next
    case (Some lines)
    with load have "load_lines cv 0 lines c [] = (ok, c', err)"
      by (simp add: loadFromFile_def)
    then show ?thesis by (rule load_lines_frame)
  qed
next
  assume "key \<in> set [''generate_case_statements'', ''generate_if_else_chains'',
                 ''generate_sharing_opportunities'', ''num_case_statements'',
                 ''num_if_else_chains'', ''cases_per_statement'',
                 ''weight_add'', ''weight_sub'', ''weight_mult'', ''weight_div'', ''weight_mod'',
                 ''weight_sll'', ''weight_srl'', ''weight_sra'']"
  then show "assign_key cv n key val c =
        Some (c, [''Warning: Unknown config key '' @ [CHR 0x27] @ key @ [CHR 0x27] @
                  '' at line '' @ to_string (int n)])"
    by (rule unknown_key_warns)
qed

theorem loadFromFile_frame_witness:
  "loadFromFile example_conversions (Some example_file) default_config =
     (True, default_config\<lparr>num_inputs := 3\<rparr>,
      [''Warning: Unknown config key '' @ [CHR 0x27] @ ''weight_add'' @ [CHR 0x27] @ '' at line 3'',
       ''Warning: Unknown config key '' @ [CHR 0x27] @ ''generate_case_statements'' @ [CHR 0x27] @
       '' at line 4'']) \<and>
   generate_case_statements (default_config\<lparr>num_inputs := 3\<rparr>) =
     generate_case_statements default_config \<and>
   weight_add (default_config\<lparr>num_inputs := 3\<rparr>) = weight_add default_config \<and>
   ''weight_add'' \<in> set [''generate_case_statements'', ''generate_if_else_chains'',
                 ''generate_sharing_opportunities'', ''num_case_statements'',
                 ''num_if_else_chains'', ''cases_per_statement'',
                 ''weight_add'', ''weight_sub'', ''weight_mult'', ''weight_div'', ''weight_mod'',
                 ''weight_sll'', ''weight_srl'', ''weight_sra''] \<and>
   assign_key example_conversions 3 ''weight_add'' ''0.9'' default_config =
     Some (default_config,
           [''Warning: Unknown config key '' @ [CHR 0x27] @ ''weight_add'' @ [CHR 0x27] @
            '' at line '' @ to_string (int 3)])"
proof -
  have m: "''weight_add'' \<in> set [''generate_case_statements'', ''generate_if_else_chains'',
                 ''generate_sharing_opportunities'', ''num_case_statements'',
                 ''num_if_else_chains'', ''cases_per_statement'',
                 ''weight_add'', ''weight_sub'', ''weight_mult'', ''weight_div'', ''weight_mod'',
                 ''weight_sll'', ''weight_srl'', ''weight_sra'']"
    by simp
  note t = loadFromFile_frame [of example_conversions "Some example_file" default_config True
             "default_config\<lparr>num_inputs := 3\<rparr>" _ "''weight_add''" 3 "''0.9''"]
  from t [THEN conjunct1, rule_format, OF example_load]
       t [THEN conjunct2, rule_format, OF m] example_load m
  show ?thesis by simp
qed

lemma next_raw_fields [simp]:
  "store (snd (next_raw s)) = store s" "inputs (snd (next_raw s)) = inputs s"
  "outputs (snd (next_raw s)) = outputs s" "wires (snd (next_raw s)) = wires s"
  "regs (snd (next_raw s)) = regs s" "operations (snd (next_raw s)) = operations s"
  "control_blocks (snd (next_raw s)) = control_blocks s"
  "signal_counter (snd (next_raw s)) = signal_counter s"
  by (simp_all add: next_raw_def split: list.split)

lemma randomBool_fields [simp]:
  "store (snd (randomBool p s)) = store s" "inputs (snd (randomBool p s)) = inputs s"
  "outputs (snd (randomBool p s)) = outputs s" "wires (snd (randomBool p s)) = wires s"
  "regs (snd (randomBool p s)) = regs s" "operations (snd (randomBool p s)) = operations s"
  "control_blocks (snd (randomBool p s)) = control_blocks s"
  "signal_counter (snd (randomBool p s)) = signal_counter s"
  by (simp_all add: randomBool_def case_prod_beta)

lemma random_signed_fields [simp]:
  "store (snd (random_signed c s)) = store s" "inputs (snd (random_signed c s)) = inputs s"
  "outputs (snd (random_signed c s)) = outputs s" "wires (snd (random_signed c s)) = wires s"
  "regs (snd (random_signed c s)) = regs s" "operations (snd (random_signed c s)) = operations s"
  "control_blocks (snd (random_signed c s)) = control_blocks s"
  "signal_counter (snd (random_signed c s)) = signal_counter s"
  by (simp_all add: random_signed_def)

lemma selectRandomSignal_fields [simp]:
  "store (snd (selectRandomSignal a s)) = store s" "inputs (snd (selectRandomSignal a s)) = inputs s"
  "outputs (snd (selectRandomSignal a s)) = outputs s" "wires (snd (selectRandomSignal a s)) = wires s"
  "regs (snd (selectRandomSignal a s)) = regs s"
  "operations (snd (selectRandomSignal a s)) = operations s"
  "control_blocks (snd (selectRandomSignal a s)) = control_blocks s"
  "signal_counter (snd (selectRandomSignal a s)) = signal_counter s"
  by (simp_all add: selectRandomSignal_def case_prod_beta)

lemma selectRandomSignal_None [simp]: "fst (selectRandomSignal a s) = None \<longleftrightarrow> a = []"
  by (simp add: selectRandomSignal_def case_prod_beta)

lemma selectRandomSignal_Some: "fst (selectRandomSignal a s) = Some p \<Longrightarrow> p \<in> set a"
  by (auto simp: selectRandomSignal_def case_prod_beta split: if_splits)

lemma createWire_fields [simp]:
  "fst (createWire w sg s) = length (store s)"
  "store (snd (createWire w sg s)) =
     store s @ [\<lparr> sig_name = ''wire_'' @ to_string (signal_counter s), sig_width = w,
                  sig_type = WIRE, sig_signed = sg \<rparr>]"
  "inputs (snd (createWire w sg s)) = inputs s"
  "outputs (snd (createWire w sg s)) = outputs s"
  "wires (snd (createWire w sg s)) = wires s @ [length (store s)]"
  "regs (snd (createWire w sg s)) = regs s"
  "operations (snd (createWire w sg s)) = operations s"
  "control_blocks (snd (createWire w sg s)) = control_blocks s"
  "signal_counter (snd (createWire w sg s)) = signal_counter s + 1"
  by (simp_all add: createWire_def make_shared_Signal_def Let_def)

lemma createReg_fields [simp]:
  "fst (createReg w sg s) = length (store s)"
  "store (snd (createReg w sg s)) =
     store s @ [\<lparr> sig_name = ''reg_'' @ to_string (signal_counter s), sig_width = w,
                  sig_type = REG, sig_signed = sg \<rparr>]"
  "inputs (snd (createReg w sg s)) = inputs s"
  "outputs (snd (createReg w sg s)) = outputs s"
  "wires (snd (createReg w sg s)) = wires s"
  "regs (snd (createReg w sg s)) = regs s @ [length (store s)]"
  "operations (snd (createReg w sg s)) = operations s"
  "control_blocks (snd (createReg w sg s)) = control_blocks s"
  "signal_counter (snd (createReg w sg s)) = signal_counter s + 1"
  by (simp_all add: createReg_def make_shared_Signal_def Let_def)

lemma mod_in_range:
  fixes lo hi :: int
  assumes "lo \<le> hi"
  shows "lo + int (r mod nat (hi - lo + 1)) \<le> hi"
proof -
  from assms have "0 < nat (hi - lo + 1)" by simp
  then have "r mod nat (hi - lo + 1) < nat (hi - lo + 1)" by (rule mod_less_divisor)
  then show ?thesis by linarith
qed

lemma randomInt_Some:
  "randomInt lo hi s = Some (v, s') \<Longrightarrow> same_graph s s' \<and> lo \<le> v \<and> v \<le> hi"
  by (auto simp: randomInt_def same_graph_def case_prod_beta mod_in_range split: if_splits)

lemma selectArithmeticOpType_Some:
  "selectArithmeticOpType c s = Some (ty, s') \<Longrightarrow>
     same_graph s s' \<and> ty \<in> {ADD, SUB, MULT, DIV, MOD}"
  by (auto simp: selectArithmeticOpType_def same_graph_def case_prod_beta Let_def nth_Cons'
           split: if_splits option.splits)

lemma selectShiftOpType_Some:
  "selectShiftOpType c s = Some (ty, s') \<Longrightarrow> same_graph s s' \<and> ty \<in> {SLL, SRL, SRA}"
  by (auto simp: selectShiftOpType_def same_graph_def case_prod_beta Let_def nth_Cons'
           split: if_splits option.splits)

lemma grows_refl [simp]: "grows s s"
  by (simp add: grows_def)

lemma grows_trans: "grows s t \<Longrightarrow> grows t u \<Longrightarrow> grows s u"
  by (auto simp: grows_def)

lemma same_graph_refl [simp]: "same_graph s s"
  by (simp add: same_graph_def)

lemma same_graph_trans: "same_graph s t \<Longrightarrow> same_graph t u \<Longrightarrow> same_graph s u"
  by (simp add: same_graph_def)

lemma same_graph_grows: "same_graph s s' \<Longrightarrow> grows s s'"
  by (simp add: same_graph_def grows_def store_ok_def)

lemma same_graph_leaf [simp]:
  "same_graph s (snd (next_raw s))" "same_graph s (snd (randomBool p s))"
  "same_graph s (snd (random_signed c s))" "same_graph s (snd (selectRandomSignal a s))"
  by (simp_all add: same_graph_def)

lemma store_ok_same: "same_graph s s' \<Longrightarrow> store_ok s' = store_ok s"
  by (simp add: same_graph_def store_ok_def)

lemma store_ok_leaf [simp]:
  "store_ok (snd (next_raw s)) = store_ok s" "store_ok (snd (randomBool p s)) = store_ok s"
  "store_ok (snd (random_signed c s)) = store_ok s"
  "store_ok (snd (selectRandomSignal a s)) = store_ok s"
  by (simp_all add: store_ok_same)

lemma store_ok_createWire [simp]: "store_ok s \<Longrightarrow> store_ok (snd (createWire w sg s))"
  by (auto simp: store_ok_def list_all_iff nth_append intro: less_SucI)

lemma store_ok_createReg [simp]: "store_ok s \<Longrightarrow> store_ok (snd (createReg w sg s))"
  by (auto simp: store_ok_def list_all_iff nth_append intro: less_SucI)

lemma grows_leaf [simp]:
  "grows s (snd (next_raw t)) = grows s t" "grows s (snd (randomBool p t)) = grows s t"
  "grows s (snd (random_signed c t)) = grows s t"
  "grows s (snd (selectRandomSignal a t)) = grows s t"
  by (simp_all add: grows_def)

lemma grows_createWire [simp]: "grows s t \<Longrightarrow> grows s (snd (createWire w sg t))"
  by (simp add: grows_def)

lemma op_wf_unary:
  "isUnary ty \<Longrightarrow> a < out \<Longrightarrow> op_wf (addInput a (Operation_ctor ty out))"
  by (auto simp: op_wf_def has_required_operands_def operands_before_output_def addInput_def
        Operation_ctor_def getRequiredOperands_def isUnary_def)

lemma op_wf_binary:
  "isBinary ty \<Longrightarrow> a < out \<Longrightarrow> b < out \<Longrightarrow>
     op_wf (addInput b (addInput a (Operation_ctor ty out)))"
  by (auto simp: op_wf_def has_required_operands_def operands_before_output_def addInput_def
        Operation_ctor_def getRequiredOperands_def isUnary_def isBinary_def)

lemma selectRandomSignal_empty [simp]: "selectRandomSignal [] s = (None, s)"
  by (simp add: selectRandomSignal_def)

lemma selectRandomSignal_nonempty [simp]:
  "a \<noteq> [] \<Longrightarrow> fst (selectRandomSignal a s) = Some (a ! (fst (next_raw s) mod length a))"
  by (simp add: selectRandomSignal_def case_prod_beta)

lemma pick_below: "a \<noteq> [] \<Longrightarrow> \<forall>p\<in>set a. p < n \<Longrightarrow> a ! (r mod length a) < n"
  by simp

lemma grows_after_same: "same_graph s t \<Longrightarrow> grows t u \<Longrightarrow> grows s u"
  by (blast intro: grows_trans same_graph_grows)

lemma generateArithmeticOp_ok:
  assumes "generateArithmeticOp c avail s = Some (opo, s')"
    and "\<forall>p\<in>set avail. p < length (store s)"
  shows "grows s s' \<and> (\<forall>op. opo = Some op \<longrightarrow> op_wf op)"
proof -
  from assms(1) obtain ty s1 where sel: "selectArithmeticOpType c s = Some (ty, s1)"
    by (auto simp: generateArithmeticOp_def bind_eq_Some_conv)
  from selectArithmeticOpType_Some [OF sel]
  have sg: "same_graph s s1" and ty: "isBinary ty" by (auto simp: isBinary_def)
  then have len: "store s1 = store s" by (simp add: same_graph_def)
  show ?thesis
  proof (cases "avail = []")
    case True
    with assms(1) sel sg show ?thesis
      by (auto simp: generateArithmeticOp_def same_graph_grows)
  next
    case False
    with assms sel ty len show ?thesis
      by (auto simp: generateArithmeticOp_def bind_eq_Some_conv case_prod_beta Let_def
               intro!: op_wf_binary grows_after_same [OF sg]
               split: if_splits)
  qed
qed


lemma logical_ops_kind:
  "n < 7 \<Longrightarrow> [AND, OR, XOR, NOT, NAND, NOR, XNOR] ! n = NOT \<or>
     isBinary ([AND, OR, XOR, NOT, NAND, NOR, XNOR] ! n)"
  by (auto simp: nth_Cons' isBinary_def)

lemma comp_ops_kind: "n < 6 \<Longrightarrow> isBinary ([EQ, NEQ, LT, GT, LTE, GTE] ! n)"
  by (auto simp: nth_Cons' isBinary_def)

lemma red_ops_kind:
  "n < 6 \<Longrightarrow> isUnary ([RED_AND, RED_OR, RED_XOR, RED_NAND, RED_NOR, RED_XNOR] ! n)"
  by (auto simp: nth_Cons' isUnary_def)

lemma generateLogicalOp_ok:
  assumes "generateLogicalOp avail s = Some (opo, s')"
    and "\<forall>p\<in>set avail. p < length (store s)"
  shows "grows s s' \<and> (\<forall>op. opo = Some op \<longrightarrow> op_wf op)"
proof -
  from assms(1) obtain i s1 where sel: "randomInt 0 6 s = Some (i, s1)"
    by (auto simp: generateLogicalOp_def bind_eq_Some_conv)
  from randomInt_Some [OF sel]
  have sg: "same_graph s s1" and i: "nat i < 7" by auto
  then have len: "store s1 = store s" by (simp add: same_graph_def)
  note kind = logical_ops_kind [OF i]
  have unary: "isUnary NOT" by (simp add: isUnary_def)
  show ?thesis
  proof (cases "avail = []")
    case True
    with assms(1) sel sg show ?thesis
      by (auto simp: generateLogicalOp_def same_graph_grows Let_def split: if_splits)
  next
    case False
    with assms sel len kind unary show ?thesis
      by (auto simp: generateLogicalOp_def case_prod_beta Let_def
               intro!: op_wf_binary op_wf_unary grows_after_same [OF sg]
               split: if_splits)
  qed
qed

lemma generateComparisonOp_ok:
  assumes "generateComparisonOp avail s = Some (opo, s')"
    and "\<forall>p\<in>set avail. p < length (store s)"
  shows "grows s s' \<and> (\<forall>op. opo = Some op \<longrightarrow> op_wf op)"
proof -
  from assms(1) obtain i s1 where sel: "randomInt 0 5 s = Some (i, s1)"
    by (auto simp: generateComparisonOp_def bind_eq_Some_conv)
  from randomInt_Some [OF sel]
  have sg: "same_graph s s1" and i: "nat i < 6" by auto
  then have len: "store s1 = store s" by (simp add: same_graph_def)
  note kind = comp_ops_kind [OF i]
  show ?thesis
  proof (cases "avail = []")
    case True
    with assms(1) sel sg show ?thesis
      by (auto simp: generateComparisonOp_def same_graph_grows Let_def)
  next
    case False
    with assms sel len kind show ?thesis
      by (auto simp: generateComparisonOp_def case_prod_beta Let_def
               intro!: op_wf_binary grows_after_same [OF sg])
  qed
qed

lemma generateShiftOp_ok:
  assumes "generateShiftOp c avail s = Some (opo, s')"
    and "\<forall>p\<in>set avail. p < length (store s)"
  shows "grows s s' \<and> (\<forall>op. opo = Some op \<longrightarrow> op_wf op)"
proof -
  from assms(1) obtain ty s1 where sel: "selectShiftOpType c s = Some (ty, s1)"
    by (auto simp: generateShiftOp_def bind_eq_Some_conv)
  from selectShiftOpType_Some [OF sel]
  have sg: "same_graph s s1" and ty: "isBinary ty" by (auto simp: isBinary_def)
  then have len: "store s1 = store s" by (simp add: same_graph_def)
  show ?thesis
  proof (cases "avail = []")
    case True
    with assms(1) sel sg show ?thesis
      by (auto simp: generateShiftOp_def same_graph_grows)
  next
    case False
    with assms sel ty len show ?thesis
      by (auto simp: generateShiftOp_def case_prod_beta Let_def
               intro!: op_wf_binary grows_after_same [OF sg])
  qed
qed

lemma generateReductionOp_ok:
  assumes "generateReductionOp avail s = Some (opo, s')"
    and "\<forall>p\<in>set avail. p < length (store s)"
  shows "grows s s' \<and> (\<forall>op. opo = Some op \<longrightarrow> op_wf op)"
proof -
  from assms(1) obtain i s1 where sel: "randomInt 0 5 s = Some (i, s1)"
    by (auto simp: generateReductionOp_def bind_eq_Some_conv)
  from randomInt_Some [OF sel]
  have sg: "same_graph s s1" and i: "nat i < 6" by auto
  then have len: "store s1 = store s" by (simp add: same_graph_def)
  note kind = red_ops_kind [OF i]
  show ?thesis
  proof (cases "avail = []")
    case True
    with assms(1) sel sg show ?thesis
      by (auto simp: generateReductionOp_def same_graph_grows Let_def)
  next
    case False
    with assms sel len kind show ?thesis
      by (auto simp: generateReductionOp_def case_prod_beta Let_def
               intro!: op_wf_unary grows_after_same [OF sg])
  qed
qed

lemma fold_addInput [simp]:
  "op_inputs (fold addInput ps op) = op_inputs op @ ps"
  "op_type (fold addInput ps op) = op_type op"
  "op_output (fold addInput ps op) = op_output op"
  by (induction ps arbitrary: op) (simp_all add: addInput_def)

lemma op_fields [simp]:
  "op_inputs (addInput p op) = op_inputs op @ [p]"
  "op_type (addInput p op) = op_type op"
  "op_output (addInput p op) = op_output op"
  "op_inputs (Operation_ctor ty out) = []"
  "op_type (Operation_ctor ty out) = ty"
  "op_output (Operation_ctor ty out) = out"
  "op_depth (Operation_ctor ty out) = 0"
  "op_stage (Operation_ctor ty out) = 0"
  by (simp_all add: addInput_def Operation_ctor_def)

lemma upt_4: "[0..<4] = [0, 1, 2, 3]"
  by (simp add: upt_rec)

lemma op_wf_iff:
  "op_wf op \<longleftrightarrow>
     (if op_type op = CONCAT then 2 \<le> length (op_inputs op)
      else int (length (op_inputs op)) = getRequiredOperands (op_type op)) \<and>
     (\<forall>p\<in>set (op_inputs op). p < op_output op)"
  by (auto simp: op_wf_def has_required_operands_def operands_before_output_def list_all_iff
        getRequiredOperands_def isUnary_def isBinary_def isTernary_def)

lemma required_mux [simp]: "getRequiredOperands MUX2 = 3" "getRequiredOperands MUX4 = 5"
  by (simp_all add: getRequiredOperands_def isUnary_def isBinary_def isTernary_def)

lemma generateMuxOp_ok:
  assumes "generateMuxOp avail s = Some (opo, s')"
    and "\<forall>p\<in>set avail. p < length (store s)"
  shows "grows s s' \<and> (\<forall>op. opo = Some op \<longrightarrow> op_wf op)"
proof (cases "avail = []")
  case True
  with assms(1) show ?thesis
    by (auto simp: generateMuxOp_def Let_def case_prod_beta upt_4 draw_data_input_def
             split: if_splits)
next
  case False
  with assms show ?thesis
    by (auto simp: generateMuxOp_def Let_def case_prod_beta upt_4 draw_data_input_def op_wf_iff
                   less_Suc_eq
             split: if_splits)
qed

lemma for_each_invariant:
  assumes "for_each xs body s = Some s'" and "I s"
    and "\<And>x t t'. x \<in> set xs \<Longrightarrow> I t \<Longrightarrow> body x t = Some t' \<Longrightarrow> I t'"
  shows "I s'"
  using assms
proof (induction xs arbitrary: s)
  case Nil
  then show ?case by simp
next
  case (Cons x xs)
  from Cons.prems(1) obtain t where t: "body x s = Some t" and rest: "for_each xs body t = Some s'"
    by (auto split: option.splits)
  from Cons.prems(3) [OF _ Cons.prems(2) t] have "I t" by simp
  moreover have "\<And>y u u'. y \<in> set xs \<Longrightarrow> I u \<Longrightarrow> body y u = Some u' \<Longrightarrow> I u'"
    using Cons.prems(3) by (meson list.set_intros(2))
  ultimately show ?case using Cons.IH [OF rest] by blast
qed

lemma for_each_prefix_invariant:
  assumes "for_each xs body s = Some s'" and "I [] s"
    and "\<And>ys x zs t t'. xs = ys @ x # zs \<Longrightarrow> I ys t \<Longrightarrow> body x t = Some t' \<Longrightarrow> I (ys @ [x]) t'"
  shows "I xs s'"
proof -
  have "for_each zs body t = Some s' \<Longrightarrow> xs = ys @ zs \<Longrightarrow> I ys t \<Longrightarrow> I xs s'" for ys zs t
  proof (induction zs arbitrary: ys t)
    case Nil
    then show ?case by simp
  next
    case (Cons z zs)
    from Cons.prems(1) obtain u where u: "body z t = Some u" and rest: "for_each zs body u = Some s'"
      by (auto split: option.splits)
    from assms(3) [OF Cons.prems(2) Cons.prems(3) u] have "I (ys @ [z]) u" .
    moreover from Cons.prems(2) have "xs = (ys @ [z]) @ zs" by simp
    ultimately show ?case using Cons.IH [OF rest] by blast
  qed
  from this [of xs s "[]"] assms(1,2) show ?thesis by simp
qed

lemma concat_loop:
  "for_each xs (draw_concat_input avail) (ins0, tw0, s0) = Some (ins, tw, s2) \<Longrightarrow>
     same_graph s0 s2 \<and>
     (if avail = [] then ins = ins0
      else length ins = length ins0 + length xs \<and> set ins \<subseteq> set ins0 \<union> set avail)"
proof (induction xs arbitrary: ins0 tw0 s0)
  case Nil
  then show ?case by simp
next
  case (Cons x xs)
  from Cons.prems obtain ins1 tw1 s1
    where step: "draw_concat_input avail x (ins0, tw0, s0) = Some (ins1, tw1, s1)"
      and rest: "for_each xs (draw_concat_input avail) (ins1, tw1, s1) = Some (ins, tw, s2)"
    by (auto split: option.splits)
  from step have 1: "same_graph s0 s1 \<and>
     (if avail = [] then ins1 = ins0
      else length ins1 = length ins0 + 1 \<and> set ins1 \<subseteq> set ins0 \<union> set avail)"
    by (cases "avail = []") (auto simp: draw_concat_input_def case_prod_beta Let_def)
  from Cons.IH [OF rest] 1 show ?case
    by (auto intro: same_graph_trans split: if_splits)
qed

lemma generateConcatOp_ok:
  assumes "generateConcatOp avail s = Some (opo, s')"
    and "\<forall>p\<in>set avail. p < length (store s)"
  shows "grows s s' \<and> (\<forall>op. opo = Some op \<longrightarrow> op_wf op)"
proof -
  from assms(1) obtain n s1 ins tw s2
    where sel: "randomInt 2 4 s = Some (n, s1)"
      and loop: "for_each (int_range n) (draw_concat_input avail) ([], 0, s1) = Some (ins, tw, s2)"
      and fin: "(if length ins < 2 then Some (None, s2)
                 else let (out, s3) = createWire tw False s2
                      in Some (Some (fold addInput ins (Operation_ctor CONCAT out)), s3)) = Some (opo, s')"
    by (auto simp: generateConcatOp_def bind_eq_Some_conv)
  from randomInt_Some [OF sel] have sg1: "same_graph s s1" by simp
  from concat_loop [OF loop] have sg2: "same_graph s1 s2"
    and ins: "avail \<noteq> [] \<Longrightarrow> set ins \<subseteq> set avail" by (auto split: if_splits)
  from sg1 sg2 have sg: "same_graph s s2" by (rule same_graph_trans)
  then have len: "store s2 = store s" by (simp add: same_graph_def)
  show ?thesis
  proof (cases "length ins < 2")
    case True
    with fin sg show ?thesis by (auto simp: same_graph_grows)
  next
    case False
    then have "ins \<noteq> []" by auto
    with concat_loop [OF loop] have "avail \<noteq> []" by (auto split: if_splits)
    from ins [OF this] assms(2) have below: "\<forall>p\<in>set ins. p < length (store s)" by auto
    from False fin len below show ?thesis
      by (auto simp: case_prod_beta Let_def op_wf_iff intro!: grows_after_same [OF sg])
  qed
qed

lemma control_ok_mono:
  assumes "control_blocks s' = control_blocks s" and "set (regs s) \<subseteq> set (regs s')"
    and "control_ok s"
  shows "control_ok s'"
  unfolding control_ok_def list_all_iff
proof
  fix cb assume "cb \<in> set (control_blocks s')"
  with assms(1,3) obtain R where "R \<subseteq> set (regs s)" and "writes_same R cb"
    by (auto simp: control_ok_def list_all_iff)
  with assms(2) show "\<exists>R. R \<subseteq> set (regs s') \<and> writes_same R cb" by blast
qed

lemma grows_graph_inv: "grows s s' \<Longrightarrow> graph_inv s \<Longrightarrow> graph_inv s'"
  by (auto simp: grows_def graph_inv_def all_operations_def intro: control_ok_mono)

lemma selectRandomOpType_Some:
  assumes "selectRandomOpType c s = Some (ty, s')"
  shows "same_graph s s' \<and> ty \<in> {ADD, AND, EQ, SLL, MUX2, CONCAT, RED_AND} \<and>
         (ty = MUX2 \<longrightarrow> 0 < weight_mux c)"
proof -
  define weighted where "weighted =
            (if weight_arithmetic c > 0 then [(weight_arithmetic c, ADD)] else []) @
            (if weight_logical c > 0 then [(weight_logical c, AND)] else []) @
            (if weight_comparison c > 0 then [(weight_comparison c, EQ)] else []) @
            (if weight_shift c > 0 then [(weight_shift c, SLL)] else []) @
            (if weight_mux c > 0 then [(weight_mux c, MUX2)] else []) @
            (if weight_concat c > 0 then [(weight_concat c, CONCAT)] else []) @
            (if weight_reduction c > 0 then [(weight_reduction c, RED_AND)] else [])"
  from assms obtain i where i: "i < length (map snd weighted)" and ty: "ty = map snd weighted ! i"
    and s': "s' = snd (next_raw s)"
    unfolding selectRandomOpType_def weighted_def [symmetric] Let_def case_prod_beta
    by (auto split: option.splits if_splits)
  from i ty have "ty \<in> set (map snd weighted)" by (metis nth_mem)
  then have "ty \<in> {ADD, AND, EQ, SLL, MUX2, CONCAT, RED_AND} \<and> (ty = MUX2 \<longrightarrow> 0 < weight_mux c)"
    unfolding weighted_def by (auto split: if_splits)
  with s' show ?thesis by simp
qed

lemma datapath_attempt_ok:
  assumes "datapath_attempt c s = Some (opo, s')" and "store_ok s"
  shows "grows s s' \<and> (\<forall>op. opo = Some op \<longrightarrow> op_wf op)"
proof -
  from assms(1) obtain ty s1 where sel: "selectRandomOpType c s = Some (ty, s1)"
    by (auto simp: datapath_attempt_def bind_eq_Some_conv)
  from selectRandomOpType_Some [OF sel]
  have sg: "same_graph s s1" and ty: "ty \<in> {ADD, AND, EQ, SLL, MUX2, CONCAT, RED_AND}" by auto
  define avail where
    "avail = (if getAvailableSignals s1 = [] then inputs s1 else getAvailableSignals s1)"
  from assms(2) sg have below: "\<forall>p\<in>set avail. p < length (store s1)"
    by (auto simp: avail_def getAvailableSignals_def store_ok_def list_all_iff same_graph_def)
  from ty consider "ty = ADD" | "ty = AND" | "ty = EQ" | "ty = SLL" | "ty = MUX2"
    | "ty = CONCAT" | "ty = RED_AND" by auto
  then have "grows s1 s' \<and> (\<forall>op. opo = Some op \<longrightarrow> op_wf op)"
  proof cases
    case 1
    with assms(1) sel have "generateArithmeticOp c avail s1 = Some (opo, s')"
      by (simp add: datapath_attempt_def avail_def)
    from generateArithmeticOp_ok [OF this below] show ?thesis .
  next
    case 2
    with assms(1) sel have "generateLogicalOp avail s1 = Some (opo, s')"
      by (simp add: datapath_attempt_def avail_def)
    from generateLogicalOp_ok [OF this below] show ?thesis .
  next
    case 3
    with assms(1) sel have "generateComparisonOp avail s1 = Some (opo, s')"
      by (simp add: datapath_attempt_def avail_def)
    from generateComparisonOp_ok [OF this below] show ?thesis .
  next
    case 4
    with assms(1) sel have "generateShiftOp c avail s1 = Some (opo, s')"
      by (simp add: datapath_attempt_def avail_def)
    from generateShiftOp_ok [OF this below] show ?thesis .
  next
    case 5
    with assms(1) sel have "generateMuxOp avail s1 = Some (opo, s')"
      by (simp add: datapath_attempt_def avail_def)
    from generateMuxOp_ok [OF this below] show ?thesis .
  next
    case 6
    with assms(1) sel have "generateConcatOp avail s1 = Some (opo, s')"
      by (simp add: datapath_attempt_def avail_def)
    from generateConcatOp_ok [OF this below] show ?thesis .
  next
    case 7
    with assms(1) sel have "generateReductionOp avail s1 = Some (opo, s')"
      by (simp add: datapath_attempt_def avail_def)
    from generateReductionOp_ok [OF this below] show ?thesis .
  qed
  with sg show ?thesis by (blast intro: grows_after_same)
qed

lemma graph_inv_push_operation:
  "graph_inv s \<Longrightarrow> op_wf op \<Longrightarrow> graph_inv (s\<lparr>operations := operations s @ [op]\<rparr>)"
  by (simp add: graph_inv_def all_operations_def store_ok_def control_ok_def)

lemma datapath_round_inv:
  assumes "datapath_round c i s = Some s'" and "graph_inv s"
  shows "graph_inv s'"
proof -
  from assms(1) obtain opo s1 where att: "datapath_attempt c s = Some (opo, s1)"
    and fin: "(case opo of None \<Rightarrow> Some s1
               | Some op \<Rightarrow> Some (s1\<lparr>operations := operations s1 @ [op]\<rparr>)) = Some s'"
    by (auto simp: datapath_round_def bind_eq_Some_conv)
  from assms(2) have "store_ok s" by (simp add: graph_inv_def)
  from datapath_attempt_ok [OF att this] assms(2)
  have "graph_inv s1" and "\<forall>op. opo = Some op \<longrightarrow> op_wf op"
    by (auto intro: grows_graph_inv)
  with fin show ?thesis
    by (cases opo) (auto intro: graph_inv_push_operation)
qed

lemma generateDatapath_inv:
  "generateDatapath c s = Some s' \<Longrightarrow> graph_inv s \<Longrightarrow> graph_inv s'"
  unfolding generateDatapath_def
  by (erule for_each_invariant [where I = graph_inv]) (auto intro: datapath_round_inv)

lemma generateInput_inv:
  assumes "generateInput c i s = Some s'" and "graph_inv s"
  shows "graph_inv s'"
proof -
  from assms(1) obtain w s1 where sel: "randomInt (input_width_min c) (input_width_max c) s = Some (w, s1)"
    by (auto simp: generateInput_def generateRandomWidth_def bind_eq_Some_conv)
  from randomInt_Some [OF sel] have sg: "same_graph s s1" by simp
  with assms sel show ?thesis
    by (auto simp: generateInput_def generateRandomWidth_def case_prod_beta Let_def
          make_shared_Signal_def graph_inv_def all_operations_def store_ok_def control_ok_def
          same_graph_def list_all_iff nth_append less_Suc_eq)
qed

lemma generateOutput_inv:
  assumes "generateOutput c i s = Some s'" and "graph_inv s"
  shows "graph_inv s'"
proof -
  from assms(1) obtain w s1 where sel: "randomInt (output_width_min c) (output_width_max c) s = Some (w, s1)"
    by (auto simp: generateOutput_def bind_eq_Some_conv)
  from randomInt_Some [OF sel] have sg: "same_graph s s1" by simp
  with assms sel show ?thesis
    by (auto simp: generateOutput_def case_prod_beta Let_def
          make_shared_Signal_def graph_inv_def all_operations_def store_ok_def control_ok_def
          same_graph_def list_all_iff nth_append less_Suc_eq)
qed

lemma generateInputs_inv: "generateInputs c s = Some s' \<Longrightarrow> graph_inv s \<Longrightarrow> graph_inv s'"
  unfolding generateInputs_def
  by (erule for_each_invariant [where I = graph_inv]) (auto intro: generateInput_inv)

lemma generateOutputs_inv: "generateOutputs c s = Some s' \<Longrightarrow> graph_inv s \<Longrightarrow> graph_inv s'"
  unfolding generateOutputs_def
  by (erule for_each_invariant [where I = graph_inv]) (auto intro: generateOutput_inv)

lemma graph_inv_ctor: "graph_inv (NetlistGenerator_ctor raw)"
  by (simp add: graph_inv_def NetlistGenerator_ctor_def store_ok_def all_operations_def control_ok_def)

subsection \<open>Control blocks\<close>

lemma grows_createReg [simp]: "grows s t \<Longrightarrow> grows s (snd (createReg w sg t))"
  by (auto simp: grows_def)

lemma grows_length: "grows s t \<Longrightarrow> length (store s) \<le> length (store t)"
  by (simp add: grows_def)

lemma below_grows:
  assumes "grows t u" and "\<forall>p\<in>set a. p < length (store t)"
  shows "\<forall>p\<in>set a. p < length (store u)"
proof
  fix p assume "p \<in> set a"
  with assms(2) have "p < length (store t)" by simp
  with grows_length [OF assms(1)] show "p < length (store u)" by simp
qed

lemma distinct_int_range: "distinct (int_range n)"
  by (simp add: int_range_def distinct_map inj_on_def)

lemma int_range_split:
  assumes "int_range n = ys @ x # zs"
  shows "x \<notin> set ys" and "x = int (length ys)"
proof -
  from distinct_int_range [of n] assms show "x \<notin> set ys" by simp
  have "length ys < length (int_range n)" using assms by simp
  then have "int_range n ! length ys = int (length ys)"
    by (simp add: int_range_def)
  with assms show "x = int (length ys)" by simp
qed

lemma block_outputs_loop:
  assumes "for_each xs (create_block_output c) (outs0, s0) = Some (outs, s1)"
  shows "grows s0 s1 \<and> set outs \<subseteq> set outs0 \<union> set (regs s1)"
  using assms
proof (induction xs arbitrary: outs0 s0)
  case Nil
  then show ?case by auto
next
  case (Cons x xs)
  from Cons.prems obtain outs' s'
    where step: "create_block_output c x (outs0, s0) = Some (outs', s')"
      and rest: "for_each xs (create_block_output c) (outs', s') = Some (outs, s1)"
    by (auto split: option.splits)
  from step obtain w t where sel: "generateRandomWidth c s0 = Some (w, t)"
    by (auto simp: create_block_output_def bind_eq_Some_conv)
  then have sg: "same_graph s0 t"
    by (auto simp: generateRandomWidth_def dest: randomInt_Some)
  from step sel have 1: "grows t s' \<and> set outs' \<subseteq> set outs0 \<union> set (regs s')"
    by (auto simp: create_block_output_def case_prod_beta Let_def)
  from Cons.IH [OF rest] have 2: "grows s' s1" "set outs \<subseteq> set outs' \<union> set (regs s1)"
    by auto
  from 2(1) have "set (regs s') \<subseteq> set (regs s1)" by (simp add: grows_def)
  with 1 2 sg show ?case
    by (auto intro: grows_trans grows_after_same)
qed

lemma update_first_case_last:
  "v \<notin> case_value ` set cs \<Longrightarrow> case_value ci = v \<Longrightarrow>
     update_first_case v f (cs @ [ci]) = cs @ [f ci]"
  by (induction cs) auto

lemma written_simps [simp]:
  "written [] = {}" "written (xs @ [(out, inp)]) = insert out (written xs)"
  by (auto simp: written_def)

lemma arithmetic_is_binary: "ty \<in> {ADD, SUB, MULT, DIV, MOD} \<Longrightarrow> isBinary ty"
  by (auto simp: isBinary_def)

lemma case_assign_output_step:
  assumes step: "case_assign_output c avail v out (cb, u) = Some (cb', u')"
    and avail: "avail \<noteq> []" "\<forall>p\<in>set avail. p < length (store u)"
    and cases: "cb_cases cb = cs @ [ci]" "case_value ci = v" "v \<notin> case_value ` set cs"
  shows "grows u u' \<and> cb_type cb' = cb_type cb \<and> cb_branches cb' = cb_branches cb \<and>
         (\<exists>ci'. cb_cases cb' = cs @ [ci'] \<and> case_value ci' = v \<and>
                 written (case_assignments ci') = insert out (written (case_assignments ci)) \<and>
                 (list_all op_wf (case_operations ci) \<longrightarrow> list_all op_wf (case_operations ci')))"
proof (cases "generate_sharing_opportunities c \<and> fst (randomBool 0.7 u)")
  case False
  with step avail cases show ?thesis
    by (cases "generate_sharing_opportunities c")
       (auto simp: case_assign_output_def case_prod_beta Let_def addCaseAssignment_def
          update_first_case_last)
next
  case True
  then have share: "generate_sharing_opportunities c" "fst (randomBool 0.7 u)" by auto
  from step avail share obtain ty s4
    where sel: "selectArithmeticOpType c
                  (snd (selectRandomSignal avail (snd (selectRandomSignal avail
                     (snd (randomBool 0.7 u)))))) = Some (ty, s4)"
    by (auto simp: case_assign_output_def case_prod_beta Let_def bind_eq_Some_conv)
  from selectArithmeticOpType_Some [OF sel]
  have sg: "same_graph u s4" and ty: "isBinary ty"
    by (auto simp: same_graph_def arithmetic_is_binary)
  then have st4: "store s4 = store u" by (simp add: same_graph_def)
  from step avail cases share sel ty st4 show ?thesis
    by (auto simp: case_assign_output_def case_prod_beta Let_def addCaseAssignment_def
          addCaseOperation_def update_first_case_last
          intro!: grows_after_same [OF sg] op_wf_binary)
qed

lemma generate_case_step:
  assumes run: "generate_case c avail outs v (cb, t) = Some (cb', t')"
    and avail: "avail \<noteq> []" "\<forall>p\<in>set avail. p < length (store t)"
    and fresh: "v \<notin> case_value ` set (cb_cases cb)"
  shows "grows t t' \<and> cb_type cb' = cb_type cb \<and> cb_branches cb' = cb_branches cb \<and>
         (\<exists>ci. cb_cases cb' = cb_cases cb @ [ci] \<and> case_value ci = v \<and>
               written (case_assignments ci) = set outs \<and> list_all op_wf (case_operations ci))"
proof -
  define I where "I = (\<lambda>os (x :: ControlBlock \<times> NetlistGenerator).
      grows t (snd x) \<and> cb_type (fst x) = cb_type cb \<and> cb_branches (fst x) = cb_branches cb \<and>
      (\<exists>ci. cb_cases (fst x) = cb_cases cb @ [ci] \<and> case_value ci = v \<and>
            written (case_assignments ci) = set os \<and> list_all op_wf (case_operations ci)))"
  from run have loop:
    "for_each outs (case_assign_output c avail v) (addCase v cb, t) = Some (cb', t')"
    by (simp add: generate_case_def)
  have init: "I [] (addCase v cb, t)"
    by (simp add: I_def addCase_def)
  have step: "I (ys @ [x]) y'"
    if "I ys y" and "case_assign_output c avail v x y = Some y'" for ys x y y'
  proof -
    obtain cb1 u where y: "y = (cb1, u)" by (cases y)
    obtain cb2 u' where y': "y' = (cb2, u')" by (cases y')
    from that(1) y obtain ci where g: "grows t u" and ty: "cb_type cb1 = cb_type cb"
      and br: "cb_branches cb1 = cb_branches cb"
      and ci: "cb_cases cb1 = cb_cases cb @ [ci]" "case_value ci = v"
        "written (case_assignments ci) = set ys" "list_all op_wf (case_operations ci)"
      by (auto simp: I_def)
    from g avail(2) have below: "\<forall>p\<in>set avail. p < length (store u)"
      by (rule below_grows)
    from case_assign_output_step [OF that(2) [unfolded y y'] avail(1) below ci(1,2) fresh]
      g ty br ci(3,4)
    show ?thesis
      by (auto simp: I_def y' intro: grows_trans)
  qed
  have "I outs (cb', t')"
  proof (rule for_each_prefix_invariant [where I = I, OF loop init])
    fix ys x zs y y'
    assume "I ys y" and "case_assign_output c avail v x y = Some y'"
    then show "I (ys @ [x]) y'" by (rule step)
  qed
  then show ?thesis by (simp add: I_def)
qed

lemma case_loop:
  assumes run: "for_each (int_range n) (generate_case c avail outs) (cb, t) = Some (cb', t')"
    and avail: "avail \<noteq> []" "\<forall>p\<in>set avail. p < length (store t)"
    and start: "cb_cases cb = []"
  shows "grows t t' \<and> cb_type cb' = cb_type cb \<and> cb_branches cb' = cb_branches cb \<and>
         list_all (\<lambda>ci. written (case_assignments ci) = set outs) (cb_cases cb') \<and>
         list_all op_wf (concat (map case_operations (cb_cases cb')))"
proof -
  define I where "I = (\<lambda>vs (x :: ControlBlock \<times> NetlistGenerator).
      grows t (snd x) \<and> cb_type (fst x) = cb_type cb \<and> cb_branches (fst x) = cb_branches cb \<and>
      map case_value (cb_cases (fst x)) = vs \<and>
      list_all (\<lambda>ci. written (case_assignments ci) = set outs) (cb_cases (fst x)) \<and>
      list_all op_wf (concat (map case_operations (cb_cases (fst x)))))"
  have init: "I [] (cb, t)"
    by (simp add: I_def start)
  have step: "I (ys @ [x]) y'"
    if "int_range n = ys @ x # zs" and "I ys y" and "generate_case c avail outs x y = Some y'"
    for ys x zs y y'
  proof -
    obtain cb1 u where y: "y = (cb1, u)" by (cases y)
    obtain cb2 u' where y': "y' = (cb2, u')" by (cases y')
    from that(2) y have g: "grows t u" and vs: "map case_value (cb_cases cb1) = ys"
      by (auto simp: I_def)
    from int_range_split(1) [OF that(1)] vs have fresh: "x \<notin> case_value ` set (cb_cases cb1)"
      by (metis set_map)
    from g avail(2) have below: "\<forall>p\<in>set avail. p < length (store u)"
      by (rule below_grows)
    from generate_case_step [OF that(3) [unfolded y y'] avail(1) below fresh] that(2) y
    show ?thesis
      by (auto simp: I_def y' intro: grows_trans)
  qed
  have "I (int_range n) (cb', t')"
  proof (rule for_each_prefix_invariant [where I = I, OF run init])
    fix ys x zs y y'
    assume "int_range n = ys @ x # zs" and "I ys y"
      and "generate_case c avail outs x y = Some y'"
    then show "I (ys @ [x]) y'" by (rule step)
  qed
  then show ?thesis by (simp add: I_def)
qed

lemma default_loop:
  "fold (default_assign avail) outs (acc, u) = (acc', u') \<Longrightarrow> avail \<noteq> [] \<Longrightarrow>
     same_graph u u' \<and> written acc' = written acc \<union> set outs"
proof (induction outs arbitrary: acc u)
  case Nil
  then show ?case by simp
next
  case (Cons x xs)
  obtain acc1 u1 where 1: "default_assign avail x (acc, u) = (acc1, u1)"
    by (cases "default_assign avail x (acc, u)")
  with Cons.prems(2) have 2: "same_graph u u1 \<and> written acc1 = insert x (written acc)"
    by (auto simp: default_assign_def case_prod_beta Let_def)
  from Cons.prems(1) 1 have "fold (default_assign avail) xs (acc1, u1) = (acc', u')" by simp
  from Cons.IH [OF this Cons.prems(2)] 2 show ?case
    by (auto intro: same_graph_trans)
qed

lemma graph_inv_push_block:
  assumes "graph_inv s" and "list_all op_wf (cb_operations cb)"
    and "R \<subseteq> set (regs s)" and "writes_same R cb"
  shows "graph_inv (s\<lparr>control_blocks := control_blocks s @ [cb]\<rparr>)"
  using assms
  by (auto simp: graph_inv_def all_operations_def store_ok_def control_ok_def)

lemma store_ok_below_available:
  "store_ok s \<Longrightarrow> \<forall>p\<in>set (getAvailableSignals s). p < length (store s)"
  by (auto simp: store_ok_def getAvailableSignals_def list_all_iff)

lemma grows_regs: "grows s t \<Longrightarrow> set (regs s) \<subseteq> set (regs t)"
  by (simp add: grows_def)

lemma generate_case_statement_inv:
  assumes run: "generate_case_statement c i s = Some s'" and inv: "graph_inv s"
  shows "graph_inv s'"
proof (cases "getAvailableSignals s = []")
  case True
  with run inv show ?thesis by (simp add: generate_case_statement_def)
next
  case False
  define avail where "avail = getAvailableSignals s"
  define s1 where "s1 = snd (selectRandomSignal avail s)"
  define sel where "sel = avail ! (fst (next_raw s) mod length avail)"
  from False have ne: "avail \<noteq> []" by (simp add: avail_def)
  from run ne obtain shifted n s2 outs s3 cb s4
    where num: "randomInt 1 3 s1 = Some (n, s2)"
      and outs: "for_each (int_range n) (create_block_output c) ([], s2) = Some (outs, s3)"
      and loop: "for_each (int_range (min shifted (cases_per_statement c)))
                   (generate_case c avail outs)
                   (ControlBlock_ctor CASE_STATEMENT (Some sel), s3) = Some (cb, s4)"
      and s': "s' = (snd (fold (default_assign avail) outs ([], s4)))
                      \<lparr>control_blocks :=
                         control_blocks (snd (fold (default_assign avail) outs ([], s4))) @
                         [setDefaultCase (fst (fold (default_assign avail) outs ([], s4))) cb]\<rparr>"
    unfolding generate_case_statement_def avail_def [symmetric]
    by (auto simp: Let_def case_prod_beta bind_eq_Some_conv s1_def sel_def)
  define dflt where "dflt = fst (fold (default_assign avail) outs ([], s4))"
  define s5 where "s5 = snd (fold (default_assign avail) outs ([], s4))"
  have fold_eq: "fold (default_assign avail) outs ([], s4) = (dflt, s5)"
    by (simp add: dflt_def s5_def)
  from inv have ok: "store_ok s" by (simp add: graph_inv_def)
  have g1: "grows s s1" by (simp add: s1_def)
  from randomInt_Some [OF num] have g2: "grows s1 s2" by (simp add: same_graph_grows)
  from block_outputs_loop [OF outs] have g3: "grows s2 s3" and regs3: "set outs \<subseteq> set (regs s3)"
    by auto
  from g1 g2 g3 have g03: "grows s s3" by (blast intro: grows_trans)
  from store_ok_below_available [OF ok] have "\<forall>p\<in>set avail. p < length (store s)"
    by (simp add: avail_def)
  with g03 have below: "\<forall>p\<in>set avail. p < length (store s3)" by (rule below_grows)
  from case_loop [OF loop ne below]
  have g4: "grows s3 s4" and ty: "cb_type cb = CASE_STATEMENT" and br: "cb_branches cb = []"
    and same: "list_all (\<lambda>ci. written (case_assignments ci) = set outs) (cb_cases cb)"
    and wf: "list_all op_wf (concat (map case_operations (cb_cases cb)))"
    by (simp_all add: ControlBlock_ctor_def)
  from default_loop [OF fold_eq ne] have g5: "same_graph s4 s5" and d: "written dflt = set outs"
    by simp_all
  from g03 g4 g5 have g05: "grows s s5" by (blast intro: grows_trans same_graph_grows)
  from this inv have inv5: "graph_inv s5" by (rule grows_graph_inv)
  from g4 g5 regs3 have regs5: "set outs \<subseteq> set (regs s5)"
    by (auto simp: same_graph_def dest: grows_regs)
  have "writes_same (set outs) (setDefaultCase dflt cb)"
    using ty br same d by (simp add: writes_same_def setDefaultCase_def)
  moreover have "list_all op_wf (cb_operations (setDefaultCase dflt cb))"
    using wf br by (simp add: cb_operations_def setDefaultCase_def)
  ultimately have "graph_inv (s5\<lparr>control_blocks := control_blocks s5 @ [setDefaultCase dflt cb]\<rparr>)"
    using inv5 regs5 by (blast intro: graph_inv_push_block)
  with s' show ?thesis by (simp add: s5_def dflt_def)
qed

lemma generateCaseStatements_inv:
  "generateCaseStatements c s = Some s' \<Longrightarrow> graph_inv s \<Longrightarrow> graph_inv s'"
  unfolding generateCaseStatements_def Let_def
  by (erule for_each_invariant [where I = graph_inv]) (auto intro: generate_case_statement_inv)

lemma update_last_branch:
  "(bs @ [b])[length bs := b'] = bs @ [b']" "(bs @ [b]) ! length bs = b"
  by simp_all

lemma MULT_binary: "isBinary MULT"
  by (simp add: isBinary_def)

lemma branch_assign_output_step:
  assumes step: "branch_assign_output c avail branch out (cb, u) = Some (cb', u')"
    and avail: "avail \<noteq> []" "\<forall>p\<in>set avail. p < length (store u)"
    and branches: "cb_branches cb = bs @ [b]" "nat branch = length bs"
  shows "grows u u' \<and> cb_type cb' = cb_type cb \<and> cb_cases cb' = cb_cases cb \<and>
         (\<exists>b'. cb_branches cb' = bs @ [b'] \<and>
                written (branch_assignments b') = insert out (written (branch_assignments b)) \<and>
                (list_all op_wf (branch_operations b) \<longrightarrow> list_all op_wf (branch_operations b')))"
proof (cases "generate_sharing_opportunities c \<and> fst (randomBool 0.8 u)")
  case False
  with step avail branches show ?thesis
    by (cases "generate_sharing_opportunities c")
       (auto simp: branch_assign_output_def case_prod_beta Let_def addBranchAssignment_def
          update_last_branch)
next
  case True
  then have share: "generate_sharing_opportunities c" "fst (randomBool 0.8 u)" by auto
  from step avail branches share show ?thesis
    by (auto simp: branch_assign_output_def case_prod_beta Let_def addBranchAssignment_def
          addBranchOperation_def update_last_branch bind_eq_Some_conv
          intro!: op_wf_binary MULT_binary)
qed

lemma branch_outputs_loop:
  assumes run: "for_each outs (branch_assign_output c avail branch) (cb, t) = Some (cb', t')"
    and avail: "avail \<noteq> []" "\<forall>p\<in>set avail. p < length (store t)"
    and branches: "cb_branches cb = bs @ [b]" "nat branch = length bs"
      "branch_assignments b = []" "branch_operations b = []"
  shows "grows t t' \<and> cb_type cb' = cb_type cb \<and> cb_cases cb' = cb_cases cb \<and>
         (\<exists>b'. cb_branches cb' = bs @ [b'] \<and> written (branch_assignments b') = set outs \<and>
               list_all op_wf (branch_operations b'))"
proof -
  define I where "I = (\<lambda>os (x :: ControlBlock \<times> NetlistGenerator).
      grows t (snd x) \<and> cb_type (fst x) = cb_type cb \<and> cb_cases (fst x) = cb_cases cb \<and>
      (\<exists>b'. cb_branches (fst x) = bs @ [b'] \<and> written (branch_assignments b') = set os \<and>
            list_all op_wf (branch_operations b')))"
  have init: "I [] (cb, t)"
    by (simp add: I_def branches)
  have step: "I (ys @ [x]) y'"
    if "I ys y" and "branch_assign_output c avail branch x y = Some y'" for ys x y y'
  proof -
    obtain cb1 u where y: "y = (cb1, u)" by (cases y)
    obtain cb2 u' where y': "y' = (cb2, u')" by (cases y')
    from that(1) y obtain b1 where g: "grows t u" and ty: "cb_type cb1 = cb_type cb"
      and cs: "cb_cases cb1 = cb_cases cb"
      and b1: "cb_branches cb1 = bs @ [b1]" "written (branch_assignments b1) = set ys"
        "list_all op_wf (branch_operations b1)"
      by (auto simp: I_def)
    from g avail(2) have below: "\<forall>p\<in>set avail. p < length (store u)"
      by (rule below_grows)
    from branch_assign_output_step [OF that(2) [unfolded y y'] avail(1) below b1(1) branches(2)]
    obtain b2 where r: "grows u u'" "cb_type cb2 = cb_type cb1" "cb_cases cb2 = cb_cases cb1"
        "cb_branches cb2 = bs @ [b2]"
        "written (branch_assignments b2) = insert x (written (branch_assignments b1))"
        "list_all op_wf (branch_operations b1) \<longrightarrow> list_all op_wf (branch_operations b2)"
      by blast
    from g r(1) have "grows t u'" by (rule grows_trans)
    with r ty cs b1(2,3) show ?thesis
      by (simp add: I_def y')
  qed
  have "I outs (cb', t')"
  proof (rule for_each_prefix_invariant [where I = I, OF run init])
    fix ys x zs y y'
    assume "I ys y" and "branch_assign_output c avail branch x y = Some y'"
    then show "I (ys @ [x]) y'" by (rule step)
  qed
  then show ?thesis by (simp add: I_def)
qed

lemma generate_branch_step:
  assumes run: "generate_branch c avail outs nb branch (cb, t) = Some (cb', t')"
    and avail: "avail \<noteq> []" "\<forall>p\<in>set avail. p < length (store t)"
    and idx: "nat branch = length (cb_branches cb)"
  shows "grows t t' \<and> cb_type cb' = cb_type cb \<and> cb_cases cb' = cb_cases cb \<and>
         (\<exists>b. cb_branches cb' = cb_branches cb @ [b] \<and> written (branch_assignments b) = set outs \<and>
              list_all op_wf (branch_operations b))"
proof (cases "branch < nb - 1")
  case True
  define t1 where "t1 = snd (selectRandomSignal avail t)"
  define cond where "cond = avail ! (fst (next_raw t) mod length avail)"
  define b0 where "b0 = \<lparr>condition = Some cond, branch_operations = [], branch_assignments = []\<rparr>"
  from run True avail(1)
  have loop: "for_each outs (branch_assign_output c avail branch)
                (addBranch (Some cond) cb, t1) = Some (cb', t')"
    by (simp add: generate_branch_def case_prod_beta Let_def t1_def cond_def)
  have g: "grows t t1" by (simp add: t1_def)
  from g avail(2) have below: "\<forall>p\<in>set avail. p < length (store t1)" by (rule below_grows)
  have br: "cb_branches (addBranch (Some cond) cb) = cb_branches cb @ [b0]"
    by (simp add: addBranch_def b0_def)
  have "grows t1 t' \<and> cb_type cb' = cb_type (addBranch (Some cond) cb) \<and>
        cb_cases cb' = cb_cases (addBranch (Some cond) cb) \<and>
        (\<exists>b'. cb_branches cb' = cb_branches cb @ [b'] \<and> written (branch_assignments b') = set outs \<and>
              list_all op_wf (branch_operations b'))"
    by (rule branch_outputs_loop [OF loop avail(1) below br idx]) (simp_all add: b0_def)
  then have "grows t1 t'" and "cb_type cb' = cb_type cb \<and> cb_cases cb' = cb_cases cb \<and>
        (\<exists>b'. cb_branches cb' = cb_branches cb @ [b'] \<and> written (branch_assignments b') = set outs \<and>
              list_all op_wf (branch_operations b'))"
    by (simp_all add: addBranch_def)
  with g show ?thesis by (blast intro: grows_trans)
next
  case False
  define b0 where "b0 = \<lparr>condition = None, branch_operations = [], branch_assignments = []\<rparr>"
  from False run
  have loop: "for_each outs (branch_assign_output c avail branch) (addElseBranch cb, t) = Some (cb', t')"
    by (simp add: generate_branch_def)
  have br: "cb_branches (addElseBranch cb) = cb_branches cb @ [b0]"
    by (simp add: addBranch_def addElseBranch_def b0_def)
  have "grows t t' \<and> cb_type cb' = cb_type (addElseBranch cb) \<and>
        cb_cases cb' = cb_cases (addElseBranch cb) \<and>
        (\<exists>b'. cb_branches cb' = cb_branches cb @ [b'] \<and> written (branch_assignments b') = set outs \<and>
              list_all op_wf (branch_operations b'))"
    by (rule branch_outputs_loop [OF loop avail br idx]) (simp_all add: b0_def)
  then show ?thesis
    by (simp add: addBranch_def addElseBranch_def)
qed

lemma branch_loop:
  assumes run: "for_each (int_range nb) (generate_branch c avail outs nb) (cb, t) = Some (cb', t')"
    and avail: "avail \<noteq> []" "\<forall>p\<in>set avail. p < length (store t)"
    and start: "cb_branches cb = []"
  shows "grows t t' \<and> cb_type cb' = cb_type cb \<and> cb_cases cb' = cb_cases cb \<and>
         list_all (\<lambda>b. written (branch_assignments b) = set outs) (cb_branches cb') \<and>
         list_all op_wf (concat (map branch_operations (cb_branches cb')))"
proof -
  define I where "I = (\<lambda>(vs :: int list) (x :: ControlBlock \<times> NetlistGenerator).
      grows t (snd x) \<and> cb_type (fst x) = cb_type cb \<and> cb_cases (fst x) = cb_cases cb \<and>
      length (cb_branches (fst x)) = length vs \<and>
      list_all (\<lambda>b. written (branch_assignments b) = set outs) (cb_branches (fst x)) \<and>
      list_all op_wf (concat (map branch_operations (cb_branches (fst x)))))"
  have init: "I [] (cb, t)"
    by (simp add: I_def start)
  have step: "I (ys @ [x]) y'"
    if "int_range nb = ys @ x # zs" and "I ys y"
      and "generate_branch c avail outs nb x y = Some y'"
    for ys x zs y y'
  proof -
    obtain cb1 u where y: "y = (cb1, u)" by (cases y)
    obtain cb2 u' where y': "y' = (cb2, u')" by (cases y')
    from that(2) y have g: "grows t u" and len: "length (cb_branches cb1) = length ys"
      by (auto simp: I_def)
    from int_range_split(2) [OF that(1)] len have idx: "nat x = length (cb_branches cb1)"
      by simp
    from g avail(2) have below: "\<forall>p\<in>set avail. p < length (store u)"
      by (rule below_grows)
    from generate_branch_step [OF that(3) [unfolded y y'] avail(1) below idx]
    obtain b where r: "grows u u'" "cb_type cb2 = cb_type cb1" "cb_cases cb2 = cb_cases cb1"
        "cb_branches cb2 = cb_branches cb1 @ [b]" "written (branch_assignments b) = set outs"
        "list_all op_wf (branch_operations b)"
      by blast
    from g r(1) have "grows t u'" by (rule grows_trans)
    with r that(2) y show ?thesis
      by (simp add: I_def y')
  qed
  have "I (int_range nb) (cb', t')"
  proof (rule for_each_prefix_invariant [where I = I, OF run init])
    fix ys x zs y y'
    assume "int_range nb = ys @ x # zs" and "I ys y"
      and "generate_branch c avail outs nb x y = Some y'"
    then show "I (ys @ [x]) y'" by (rule step)
  qed
  then show ?thesis by (simp add: I_def)
qed

lemma generate_if_else_chain_inv:
  assumes run: "generate_if_else_chain c i s = Some s'" and inv: "graph_inv s"
  shows "graph_inv s'"
proof (cases "length (getAvailableSignals s) < 3")
  case True
  with run inv show ?thesis by (simp add: generate_if_else_chain_def)
next
  case False
  define avail where "avail = getAvailableSignals s"
  from False have ne: "avail \<noteq> []" by (auto simp: avail_def)
  from run False obtain n s1 outs s2 nb s3 cb s4
    where num: "randomInt 1 3 s = Some (n, s1)"
      and outs: "for_each (int_range n) (create_block_output c) ([], s1) = Some (outs, s2)"
      and nb: "randomInt 2 4 s2 = Some (nb, s3)"
      and loop: "for_each (int_range nb) (generate_branch c avail outs nb)
                   (ControlBlock_ctor IF_ELSE_CHAIN None, s3) = Some (cb, s4)"
      and s': "s' = s4\<lparr>control_blocks := control_blocks s4 @ [cb]\<rparr>"
    unfolding generate_if_else_chain_def avail_def [symmetric]
    by (auto simp: Let_def case_prod_beta bind_eq_Some_conv)
  from inv have ok: "store_ok s" by (simp add: graph_inv_def)
  from randomInt_Some [OF num] have g1: "grows s s1" by (simp add: same_graph_grows)
  from block_outputs_loop [OF outs] have g2: "grows s1 s2" and regs2: "set outs \<subseteq> set (regs s2)"
    by auto
  from randomInt_Some [OF nb] have g3: "grows s2 s3" by (simp add: same_graph_grows)
  from g1 g2 g3 have g03: "grows s s3" by (blast intro: grows_trans)
  from store_ok_below_available [OF ok] have "\<forall>p\<in>set avail. p < length (store s)"
    by (simp add: avail_def)
  with g03 have below: "\<forall>p\<in>set avail. p < length (store s3)" by (rule below_grows)
  from branch_loop [OF loop ne below]
  have g4: "grows s3 s4" and ty: "cb_type cb = IF_ELSE_CHAIN" and cs: "cb_cases cb = []"
    and same: "list_all (\<lambda>b. written (branch_assignments b) = set outs) (cb_branches cb)"
    and wf: "list_all op_wf (concat (map branch_operations (cb_branches cb)))"
    by (simp_all add: ControlBlock_ctor_def)
  from g03 g4 have "grows s s4" by (rule grows_trans)
  from this inv have inv4: "graph_inv s4" by (rule grows_graph_inv)
  from g3 g4 regs2 have regs4: "set outs \<subseteq> set (regs s4)"
    by (auto dest: grows_regs)
  have "writes_same (set outs) cb"
    using ty cs same by (simp add: writes_same_def)
  moreover have "list_all op_wf (cb_operations cb)"
    using wf cs by (simp add: cb_operations_def)
  ultimately have "graph_inv (s4\<lparr>control_blocks := control_blocks s4 @ [cb]\<rparr>)"
    using inv4 regs4 by (blast intro: graph_inv_push_block)
  with s' show ?thesis by simp
qed

lemma generateIfElseChains_inv:
  "generateIfElseChains c s = Some s' \<Longrightarrow> graph_inv s \<Longrightarrow> graph_inv s'"
  unfolding generateIfElseChains_def Let_def
  by (erule for_each_invariant [where I = graph_inv]) (auto intro: generate_if_else_chain_inv)

subsection \<open>Sharing groups, pipeline tags, output connection and depths\<close>

lemma graph_inv_grow_push:
  assumes "grows s t" and "graph_inv s" and "op_wf op"
  shows "graph_inv (t\<lparr>operations := operations t @ [op]\<rparr>)"
proof -
  from assms(1,2) have "graph_inv t" by (rule grows_graph_inv)
  then show ?thesis using assms(3) by (rule graph_inv_push_operation)
qed

lemma sharing_operation_inv:
  assumes run: "sharing_operation avail i s = Some s'" and inv: "graph_inv s"
    and below: "\<forall>p\<in>set avail. p < length (store s)"
  shows "graph_inv s' \<and> (\<forall>p\<in>set avail. p < length (store s'))"
proof (cases "avail = []")
  case True
  with run inv show ?thesis by (simp add: sharing_operation_def)
next
  case False
  define a where "a = avail ! (fst (next_raw s) mod length avail)"
  define b where "b = avail ! (fst (next_raw (snd (selectRandomSignal avail s))) mod length avail)"
  define s3 where
    "s3 = snd (randomBool 0.7 (snd (selectRandomSignal avail (snd (selectRandomSignal avail s)))))"
  define ty where
    "ty = (if fst (randomBool 0.7 (snd (selectRandomSignal avail (snd (selectRandomSignal avail s)))))
           then MULT else ADD)"
  from run False obtain w sg
    where s': "s' = (snd (createWire w sg s3))
                      \<lparr>operations := operations (snd (createWire w sg s3)) @
                         [addInput b (addInput a (Operation_ctor ty (fst (createWire w sg s3))))]\<rparr>"
    unfolding sharing_operation_def
    by (simp add: case_prod_beta Let_def bind_eq_Some_conv a_def [symmetric] b_def [symmetric]
          s3_def [symmetric] ty_def [symmetric] del: createWire_fields) blast
  have g: "grows s (snd (createWire w sg s3))" by (simp add: s3_def)
  have st: "store s3 = store s" by (simp add: s3_def)
  from False below have ab: "a < length (store s)" "b < length (store s)"
    by (simp_all add: a_def b_def)
  have "isBinary ty" by (simp add: ty_def isBinary_def)
  with ab st have wf: "op_wf (addInput b (addInput a (Operation_ctor ty (fst (createWire w sg s3)))))"
    by (simp add: op_wf_binary)
  from g inv wf have "graph_inv s'" unfolding s' by (rule graph_inv_grow_push)
  moreover from g below have "\<forall>p\<in>set avail. p < length (store (snd (createWire w sg s3)))"
    by (rule below_grows)
  then have "\<forall>p\<in>set avail. p < length (store s')" by (simp add: s')
  ultimately show ?thesis by simp
qed

lemma sharing_group_inv:
  assumes run: "sharing_group avail g s = Some s'" and inv: "graph_inv s"
    and below: "\<forall>p\<in>set avail. p < length (store s)"
  shows "graph_inv s' \<and> (\<forall>p\<in>set avail. p < length (store s'))"
proof (cases "avail = []")
  case True
  with run inv show ?thesis by (simp add: sharing_group_def)
next
  case False
  define s1 where "s1 = snd (selectRandomSignal avail s)"
  from run False obtain n s2 where num: "randomInt 2 3 s1 = Some (n, s2)"
    and loop: "for_each (int_range n) (sharing_operation avail) s2 = Some s'"
    by (auto simp: sharing_group_def case_prod_beta Let_def bind_eq_Some_conv s1_def)
  from randomInt_Some [OF num] have "grows s1 s2" by (simp add: same_graph_grows)
  moreover have "grows s s1" by (simp add: s1_def)
  ultimately have g: "grows s s2" by (rule grows_trans [rotated])
  from g inv have "graph_inv s2" by (rule grows_graph_inv)
  moreover from g below have "\<forall>p\<in>set avail. p < length (store s2)" by (rule below_grows)
  ultimately have start: "graph_inv s2 \<and> (\<forall>p\<in>set avail. p < length (store s2))" by simp
  show ?thesis
  proof (rule for_each_invariant
           [where I = "\<lambda>t. graph_inv t \<and> (\<forall>p\<in>set avail. p < length (store t))", OF loop start])
    fix x t t'
    assume "graph_inv t \<and> (\<forall>p\<in>set avail. p < length (store t))"
      and "sharing_operation avail x t = Some t'"
    then show "graph_inv t' \<and> (\<forall>p\<in>set avail. p < length (store t'))"
      using sharing_operation_inv by simp
  qed
qed

lemma generateSharingOpportunities_inv:
  assumes run: "generateSharingOpportunities s = Some s'" and inv: "graph_inv s"
  shows "graph_inv s'"
proof (cases "length (getAvailableSignals s) < 4")
  case True
  with run inv show ?thesis by (simp add: generateSharingOpportunities_def)
next
  case False
  define avail where "avail = getAvailableSignals s"
  from run False obtain n s1 where num: "randomInt 1 3 s = Some (n, s1)"
    and loop: "for_each (int_range n) (sharing_group avail) s1 = Some s'"
    by (auto simp: generateSharingOpportunities_def Let_def bind_eq_Some_conv avail_def)
  from randomInt_Some [OF num] have g: "grows s s1" by (simp add: same_graph_grows)
  from inv have "store_ok s" by (simp add: graph_inv_def)
  then have "\<forall>p\<in>set avail. p < length (store s)"
    unfolding avail_def by (rule store_ok_below_available)
  with g have "\<forall>p\<in>set avail. p < length (store s1)" by (rule below_grows)
  moreover from g inv have "graph_inv s1" by (rule grows_graph_inv)
  ultimately have start: "graph_inv s1 \<and> (\<forall>p\<in>set avail. p < length (store s1))" by simp
  have "graph_inv s' \<and> (\<forall>p\<in>set avail. p < length (store s'))"
  proof (rule for_each_invariant
           [where I = "\<lambda>t. graph_inv t \<and> (\<forall>p\<in>set avail. p < length (store t))", OF loop start])
    fix x t t'
    assume "graph_inv t \<and> (\<forall>p\<in>set avail. p < length (store t))"
      and "sharing_group avail x t = Some t'"
    then show "graph_inv t' \<and> (\<forall>p\<in>set avail. p < length (store t'))"
      using sharing_group_inv by simp
  qed
  then show ?thesis by simp
qed

lemma generateControlBlocks_inv:
  assumes "generateControlBlocks c s = Some s'" and "graph_inv s"
  shows "graph_inv s'"
proof -
  from assms(1) obtain s1 s2
    where 1: "(if generate_case_statements c \<or> num_case_statements c > 0
               then generateCaseStatements c s else Some s) = Some s1"
      and 2: "(if generate_if_else_chains c \<or> num_if_else_chains c > 0
               then generateIfElseChains c s1 else Some s1) = Some s2"
      and 3: "(if generate_sharing_opportunities c then generateSharingOpportunities s2
               else Some s2) = Some s'"
    by (auto simp: generateControlBlocks_def bind_eq_Some_conv)
  have i1: "graph_inv s1"
  proof (cases "generate_case_statements c \<or> num_case_statements c > 0")
    case True
    with 1 have "generateCaseStatements c s = Some s1" by simp
    then show ?thesis using assms(2) by (rule generateCaseStatements_inv)
  next
    case False
    with 1 assms(2) show ?thesis by simp
  qed
  have i2: "graph_inv s2"
  proof (cases "generate_if_else_chains c \<or> num_if_else_chains c > 0")
    case True
    with 2 have "generateIfElseChains c s1 = Some s2" by simp
    then show ?thesis using i1 by (rule generateIfElseChains_inv)
  next
    case False
    with 2 i1 show ?thesis by simp
  qed
  show ?thesis
  proof (cases "generate_sharing_opportunities c")
    case True
    with 3 have "generateSharingOpportunities s2 = Some s'" by simp
    then show ?thesis using i2 by (rule generateSharingOpportunities_inv)
  next
    case False
    with 3 i2 show ?thesis by simp
  qed
qed

text \<open>The results of \<open>those\<close> over a mapped list, element by element.\<close>

lemma those_map_Some:
  "those (map f xs) = Some ys \<Longrightarrow> list_all2 (\<lambda>x y. f x = Some y) xs ys"
proof (induction xs arbitrary: ys)
  case Nil
  then show ?case by simp
next
  case (Cons x xs)
  then show ?case by (auto split: option.splits)
qed

lemma pipeline_stage_of_same:
  "pipeline_stage_of c op = Some op' \<Longrightarrow>
     op_type op' = op_type op \<and> op_inputs op' = op_inputs op \<and> op_output op' = op_output op \<and>
     op_depth op' = op_depth op"
  by (auto simp: pipeline_stage_of_def setStage_def bind_eq_Some_conv)

lemma assign_depth_same:
  "assign_depth c (i, op) = Some op' \<Longrightarrow>
     op_type op' = op_type op \<and> op_inputs op' = op_inputs op \<and> op_output op' = op_output op \<and>
     op_stage op' = op_stage op \<and> int_rem (int i) (max_depth c) = Some (op_depth op')"
  by (auto simp: assign_depth_def setDepth_def)

lemma op_wf_cong:
  "op_type op' = op_type op \<Longrightarrow> op_inputs op' = op_inputs op \<Longrightarrow> op_output op' = op_output op \<Longrightarrow>
     op_wf op' = op_wf op"
  by (simp add: op_wf_def has_required_operands_def operands_before_output_def)

lemma graph_inv_replace_operations:
  assumes "graph_inv s" and "list_all op_wf ops"
  shows "graph_inv (s\<lparr>operations := ops\<rparr>)"
  using assms by (simp add: graph_inv_def all_operations_def store_ok_def control_ok_def)

lemma graph_inv_operations: "graph_inv s \<Longrightarrow> list_all op_wf (operations s)"
  by (simp add: graph_inv_def all_operations_def)

lemma generatePipeline_inv:
  assumes "generatePipeline c s = Some s'" and "graph_inv s"
  shows "graph_inv s'"
proof -
  from assms(1) obtain ops where ops: "those (map (pipeline_stage_of c) (operations s)) = Some ops"
    and s': "s' = s\<lparr>operations := ops\<rparr>"
    by (auto simp: generatePipeline_def)
  from those_map_Some [OF ops]
  have all2: "list_all2 (\<lambda>x y. pipeline_stage_of c x = Some y) (operations s) ops" .
  have "list_all op_wf ops"
    unfolding list_all_length
  proof (intro allI impI)
    fix i assume i: "i < length ops"
    with all2 have len: "i < length (operations s)"
      by (auto dest: list_all2_lengthD)
    with all2 i have "pipeline_stage_of c (operations s ! i) = Some (ops ! i)"
      by (auto simp: list_all2_conv_all_nth)
    from pipeline_stage_of_same [OF this] have "op_wf (ops ! i) = op_wf (operations s ! i)"
      by (intro op_wf_cong) simp_all
    with graph_inv_operations [OF assms(2)] len show "op_wf (ops ! i)"
      by (simp add: list_all_length)
  qed
  with assms(2) s' show ?thesis by (simp add: graph_inv_replace_operations)
qed

lemma assignDepths_inv:
  assumes "assignDepths c s = Some s'" and "graph_inv s"
  shows "graph_inv s'"
proof -
  from assms(1) obtain ops
    where ops: "those (map (assign_depth c) (enumerate 0 (operations s))) = Some ops"
      and s': "s' = s\<lparr>operations := ops\<rparr>"
    by (auto simp: assignDepths_def)
  from those_map_Some [OF ops]
  have all2: "list_all2 (\<lambda>x y. assign_depth c x = Some y) (enumerate 0 (operations s)) ops" .
  have "list_all op_wf ops"
    unfolding list_all_length
  proof (intro allI impI)
    fix i assume i: "i < length ops"
    with all2 have len: "i < length (operations s)"
      by (auto dest: list_all2_lengthD)
    with all2 i have "assign_depth c (i, operations s ! i) = Some (ops ! i)"
      by (auto simp: list_all2_conv_all_nth nth_enumerate_eq)
    from assign_depth_same [OF this] have "op_wf (ops ! i) = op_wf (operations s ! i)"
      by (intro op_wf_cong) simp_all
    with graph_inv_operations [OF assms(2)] len show "op_wf (ops ! i)"
      by (simp add: list_all_length)
  qed
  with assms(2) s' show ?thesis by (simp add: graph_inv_replace_operations)
qed

lemma assignDepths_depth:
  assumes "assignDepths c s = Some s'" and "i < length (operations s')"
  shows "int_rem (int i) (max_depth c) = Some (op_depth (operations s' ! i))"
proof -
  from assms(1) obtain ops
    where ops: "those (map (assign_depth c) (enumerate 0 (operations s))) = Some ops"
      and s': "s' = s\<lparr>operations := ops\<rparr>"
    by (auto simp: assignDepths_def)
  from those_map_Some [OF ops]
  have all2: "list_all2 (\<lambda>x y. assign_depth c x = Some y) (enumerate 0 (operations s)) ops" .
  from assms(2) s' have i: "i < length ops" by simp
  with all2 have len: "i < length (operations s)"
    by (auto dest: list_all2_lengthD)
  with all2 i have "assign_depth c (i, operations s ! i) = Some (ops ! i)"
    by (auto simp: list_all2_conv_all_nth nth_enumerate_eq)
  from assign_depth_same [OF this] s' show ?thesis by simp
qed

lemma connect_output_same [simp]: "same_graph s (snd (connect_output a out s))"
  by (simp add: connect_output_def case_prod_beta Let_def)

lemma connect_fold_same:
  "same_graph s (fold (\<lambda>out s. snd (connect_output a out s)) outs s)"
proof (induction outs arbitrary: s)
  case Nil
  show ?case by simp
next
  case (Cons out outs)
  have "same_graph s (snd (connect_output a out s))" by simp
  moreover have "same_graph (snd (connect_output a out s))
      (fold (\<lambda>out s. snd (connect_output a out s)) outs (snd (connect_output a out s)))"
    by (rule Cons.IH)
  ultimately have "same_graph s
      (fold (\<lambda>out s. snd (connect_output a out s)) outs (snd (connect_output a out s)))"
    by (rule same_graph_trans)
  then show ?case by simp
qed

lemma connectOutputs_same: "same_graph s (connectOutputs s)"
  by (simp add: connectOutputs_def Let_def connect_fold_same)

lemma generate_inv:
  assumes "generate c s = Some g" and "graph_inv s"
  shows "graph_inv g"
proof -
  from assms(1) obtain s1 s2 s3 s4 s5
    where 1: "generateInputs c s = Some s1" and 2: "generateOutputs c s1 = Some s2"
      and 3: "generateDatapath c s2 = Some s3"
      and 4: "(if num_pipeline_stages c > 0 then generatePipeline c s3 else Some s3) = Some s4"
      and 5: "generateControlBlocks c s4 = Some s5"
      and 6: "assignDepths c (connectOutputs s5) = Some g"
    by (auto simp: generate_def bind_eq_Some_conv Let_def)
  from 1 assms(2) have "graph_inv s1" by (rule generateInputs_inv)
  with 2 have "graph_inv s2" by (rule generateOutputs_inv)
  with 3 have "graph_inv s3" by (rule generateDatapath_inv)
  with 4 have "graph_inv s4"
    by (cases "num_pipeline_stages c > 0") (simp_all add: generatePipeline_inv)
  with 5 have "graph_inv s5" by (rule generateControlBlocks_inv)
  moreover have "grows s5 (connectOutputs s5)"
    by (rule same_graph_grows) (rule connectOutputs_same)
  ultimately have "graph_inv (connectOutputs s5)" by (rule grows_graph_inv [rotated])
  with 6 show ?thesis by (rule assignDepths_inv)
qed

lemma run_inv: "run c raw = Some g \<Longrightarrow> graph_inv g"
  unfolding run_def by (erule generate_inv) (rule graph_inv_ctor)

end
